theory Spec2Isabelle
  imports Complex_Main
begin

section \<open>Errors, characters and the library readers\<close>

text \<open>
  Every failure of \<^verbatim>\<open>parse_lhe.cpp\<close> is a \<^verbatim>\<open>std::runtime_error\<close> told apart by its
  message; the constructors carry what the message carries.  Three more outcomes are not
  exceptions of the source but ends of its defined behaviour: the array constructor refusing
  a negative dimension, signed overflow of \<^verbatim>\<open>n_particles += n\<close>, and a write through a
  raw pointer outside its buffer.

  An \<^verbatim>\<open>int\<close> of the source is an \<open>int\<close> here.  The values the input sets directly are
  checked against the 32-bit range: what the two integer readers return, and the sum of the
  particle counts.  The counters that advance by one per line, tag or particle row stay
  far below that range on any file of fewer than \<open>2\<^sup>3\<^sup>1\<close> lines.
\<close>

datatype error =
    FileOpenError
  | DimensionScanError int
  | EmptyInputError
  | TokenParseError int
  | XMLSyntaxError int string
  | NegativeDimension
  | SignedOverflow
  | OutOfBounds

abbreviation NL :: char where "NL \<equiv> CHR 0x0A"
abbreviation TAB :: char where "TAB \<equiv> CHR 0x09"
abbreviation CR :: char where "CR \<equiv> CHR 0x0D"
abbreviation VT :: char where "VT \<equiv> CHR 0x0B"
abbreviation FF :: char where "FF \<equiv> CHR 0x0C"

definition INT_MAX :: int where "INT_MAX = 2147483647"
definition INT_MIN :: int where "INT_MIN = - 2147483648"

definition is_digit :: "char \<Rightarrow> bool" where
  "is_digit c = (c \<in> set ''0123456789'')"

definition digit_val :: "char \<Rightarrow> int" where
  "digit_val c = int (of_char c) - 48"

text \<open>The value of a run of decimal digits, most significant first.\<close>

fun dec_from :: "int \<Rightarrow> string \<Rightarrow> int" where
  "dec_from acc [] = acc"
| "dec_from acc (c # cs) = dec_from (acc * 10 + digit_val c) cs"

definition in_int_range :: "int \<Rightarrow> bool" where
  "in_int_range v = (INT_MIN \<le> v \<and> v \<le> INT_MAX)"

text \<open>
  \<^verbatim>\<open>std::from_chars(first, last, int&)\<close>: an optional minus sign (no plus sign, no leading
  white space), then the longest run of digits.  No digit is \<^verbatim>\<open>invalid_argument\<close>, a value
  outside \<^verbatim>\<open>int\<close> is \<^verbatim>\<open>result_out_of_range\<close>; in both cases the target is left unmodified,
  which is \<open>None\<close> here.  Characters after the digits are not an error.
\<close>

definition from_chars_int :: "string \<Rightarrow> int option" where
  "from_chars_int token =
     (let neg = (token \<noteq> [] \<and> hd token = CHR ''-'');
          body = (if neg then tl token else token);
          ds = takeWhile is_digit body
      in if ds = [] then None
         else let v = (if neg then - dec_from 0 ds else dec_from 0 ds)
              in if in_int_range v then Some v else None)"

text \<open>
  \<^verbatim>\<open>iss >> n\<close> on a \<^verbatim>\<open>std::istringstream\<close>: leading white space of the C locale is
  skipped, a sign of either kind is accepted, then the digits.  The stream fails when there
  is no digit or the value does not fit an \<^verbatim>\<open>int\<close>.
\<close>

definition is_space :: "char \<Rightarrow> bool" where
  "is_space c = (c = CHR '' '' \<or> c = TAB \<or> c = NL \<or> c = VT \<or> c = FF \<or> c = CR)"

definition istream_int :: "string \<Rightarrow> int option" where
  "istream_int line =
     (let s = dropWhile is_space line;
          neg = (s \<noteq> [] \<and> hd s = CHR ''-'');
          signed = (s \<noteq> [] \<and> (hd s = CHR ''-'' \<or> hd s = CHR ''+''));
          body = (if signed then tl s else s);
          ds = takeWhile is_digit body
      in if ds = [] then None
         else let v = (if neg then - dec_from 0 ds else dec_from 0 ds)
              in if in_int_range v then Some v else None)"

text \<open>\<^verbatim>\<open>line.find(pat) != std::string::npos\<close>.\<close>

fun starts_with :: "string \<Rightarrow> string \<Rightarrow> bool" where
  "starts_with [] s = True"
| "starts_with (p # ps) [] = False"
| "starts_with (p # ps) (c # cs) = (p = c \<and> starts_with ps cs)"

fun found :: "string \<Rightarrow> string \<Rightarrow> bool" where
  "found pat [] = starts_with pat []"
| "found pat (c # cs) = (starts_with pat (c # cs) \<or> found pat cs)"

section \<open>Pass 1: countDimensions\<close>

text \<open>
  The file is its content, \<open>None\<close> when it cannot be opened.  \<open>getlines\<close> is the sequence
  of lines that successive \<^verbatim>\<open>std::getline\<close> calls deliver; \<open>newline_ended\<close> says whether
  the last of them was closed by a newline, which decides what a \<^verbatim>\<open>getline\<close> at the end of
  the file does to its target: after a closed last line the stream is still good, so the
  target is erased before the read fails; after an open last line the end-of-file bit is
  already set and the target keeps its old content.
\<close>

fun getlines_from :: "string \<Rightarrow> string \<Rightarrow> string list" where
  "getlines_from cur [] = (if cur = [] then [] else [cur])"
| "getlines_from cur (c # cs) =
     (if c = NL then cur # getlines_from [] cs else getlines_from (cur @ [c]) cs)"

definition getlines :: "string \<Rightarrow> string list" where
  "getlines content = getlines_from [] content"

definition newline_ended :: "string \<Rightarrow> bool" where
  "newline_ended content = (content \<noteq> [] \<and> last content = NL)"

text \<open>
  The \<^verbatim>\<open>while (std::getline(f, line))\<close> loop with the four local counters as arguments.
  The second equation is the last line of the file: the inner \<^verbatim>\<open>getline\<close> finds nothing.
\<close>

definition count_weight :: "string \<Rightarrow> int \<Rightarrow> int" where
  "count_weight line n_weights = (if found ''<weight '' line then n_weights + 1 else n_weights)"

definition add_particles :: "int \<Rightarrow> int \<Rightarrow> error + int" where
  "add_particles n_particles n =
     (if in_int_range (n_particles + n) then Inr (n_particles + n) else Inl SignedOverflow)"

fun scan_lines :: "bool \<Rightarrow> string list \<Rightarrow> int \<Rightarrow> int \<Rightarrow> int \<Rightarrow> int \<Rightarrow> error + (int \<times> int \<times> int)" where
  "scan_lines nl [] n_events n_weights n_particles n_line = Inr (n_events, n_weights, n_particles)"
| "scan_lines nl [line] n_events n_weights n_particles n_line =
     (if found ''<event>'' line then
        (let header = (if nl then [] else line) in
         case istream_int header of
           None \<Rightarrow> Inl (DimensionScanError (n_line + 2))
         | Some n \<Rightarrow>
             (case add_particles n_particles n of
                Inl e \<Rightarrow> Inl e
              | Inr np \<Rightarrow> scan_lines nl [] (n_events + 1) (count_weight header n_weights) np (n_line + 2)))
      else scan_lines nl [] n_events (count_weight line n_weights) n_particles (n_line + 1))"
| "scan_lines nl (line # header # rest) n_events n_weights n_particles n_line =
     (if found ''<event>'' line then
        (case istream_int header of
           None \<Rightarrow> Inl (DimensionScanError (n_line + 2))
         | Some n \<Rightarrow>
             (case add_particles n_particles n of
                Inl e \<Rightarrow> Inl e
              | Inr np \<Rightarrow> scan_lines nl rest (n_events + 1) (count_weight header n_weights) np (n_line + 2)))
      else scan_lines nl (header # rest) n_events (count_weight line n_weights) n_particles (n_line + 1))"

definition countDimensions :: "string option \<Rightarrow> error + (int \<times> int \<times> int)" where
  "countDimensions file =
     (case file of
        None \<Rightarrow> Inl FileOpenError
      | Some content \<Rightarrow> scan_lines (newline_ended content) (getlines content) 0 0 0 0)"

section \<open>Pass 2: the capture state\<close>

definition NO_CAPTURE :: int where "NO_CAPTURE = 0"
definition EVENT_HEADER :: int where "EVENT_HEADER = 1"
definition WGT_TAG :: int where "WGT_TAG = 2"

text \<open>
  The four array pointers are the flat row-major buffers they point into.  \<open>'d\<close> is the
  type of a \<^verbatim>\<open>double\<close>.
\<close>

record 'd ParseState =
  fevt_arr :: "'d list"
  ievt_arr :: "int list"
  fptc_arr :: "'d list"
  iptc_arr :: "int list"
  n_weights :: int
  n_events :: int
  n_particles :: int
  cur_event :: int
  cur_weight :: int
  cur_particle :: int
  capture :: int
  charBuf :: string

text \<open>
  A write \<^verbatim>\<open>base[i] = v\<close> through a raw pointer.  Inside the buffer it is the update of
  the list.  Outside, the source makes no test and carries on with whatever memory it has
  hit; that behaviour is undefined and has no value in this model, so the model stops with
  \<open>OutOfBounds\<close>.  This outcome marks where the model ends, not a failure the source
  reports.
\<close>

definition store :: "'a list \<Rightarrow> int \<Rightarrow> 'a \<Rightarrow> error + 'a list" where
  "store arr i v =
     (if 0 \<le> i \<and> i < int (length arr) then Inr (arr[nat i := v]) else Inl OutOfBounds)"

subsection \<open>consume\_next\<close>

definition is_delim :: "char \<Rightarrow> bool" where
  "is_delim c = (c = CHR '' '' \<or> c = TAB \<or> c = NL \<or> c = CR)"

fun find_first_not_of :: "string \<Rightarrow> nat option" where
  "find_first_not_of [] = None"
| "find_first_not_of (c # cs) =
     (if is_delim c then map_option Suc (find_first_not_of cs) else Some 0)"

fun find_first_of :: "string \<Rightarrow> nat option" where
  "find_first_of [] = None"
| "find_first_of (c # cs) =
     (if is_delim c then Some 0 else map_option Suc (find_first_of cs))"

text \<open>
  \<open>consume_next fc sv\<close> returns what \<^verbatim>\<open>consume_next(sv, value)\<close> does to \<^verbatim>\<open>value\<close>
  (\<open>Some v\<close>: assigned and \<^verbatim>\<open>true\<close> returned; \<open>None\<close>: untouched and \<^verbatim>\<open>false\<close> returned)
  together with the advanced view.  \<open>fc\<close> is \<^verbatim>\<open>std::from_chars\<close> at the type of the
  target.
\<close>

definition consume_next :: "(string \<Rightarrow> 'a option) \<Rightarrow> string \<Rightarrow> 'a option \<times> string" where
  "consume_next fc sv =
     (case find_first_not_of sv of
        None \<Rightarrow> (None, sv)
      | Some begin \<Rightarrow>
          (let sv1 = drop begin sv in
           case find_first_of sv1 of
             None \<Rightarrow> (fc sv1, [])
           | Some end \<Rightarrow> (fc (take end sv1), drop end sv1)))"

text \<open>\<^verbatim>\<open>consume_next(sv, base[i])\<close>: the slot is written only when the token converts.\<close>

definition consume_into :: "(string \<Rightarrow> 'a option) \<Rightarrow> 'a list \<Rightarrow> int \<Rightarrow> string \<Rightarrow> error + ('a list \<times> string)" where
  "consume_into fc arr i sv =
     (case consume_next fc sv of
        (None, sv') \<Rightarrow> Inr (arr, sv')
      | (Some v, sv') \<Rightarrow>
          (case store arr i v of Inl e \<Rightarrow> Inl e | Inr arr' \<Rightarrow> Inr (arr', sv')))"

text \<open>\<^verbatim>\<open>for (i = 0; i < k; i++) consume_next(sv, base[i])\<close> with \<open>base\<close> at offset \<open>i0\<close>.\<close>

fun consume_row :: "(string \<Rightarrow> 'a option) \<Rightarrow> nat \<Rightarrow> 'a list \<Rightarrow> int \<Rightarrow> string \<Rightarrow> error + ('a list \<times> string)" where
  "consume_row fc 0 arr i0 sv = Inr (arr, sv)"
| "consume_row fc (Suc k) arr i0 sv =
     (case consume_into fc arr i0 sv of
        Inl e \<Rightarrow> Inl e
      | Inr (arr', sv') \<Rightarrow> consume_row fc k arr' (i0 + 1) sv')"

subsection \<open>processEvent and processWeight\<close>

text \<open>The particle loop; the first argument counts the iterations still to run.\<close>

fun read_particles :: "(string \<Rightarrow> 'd option) \<Rightarrow> nat \<Rightarrow> 'd ParseState \<Rightarrow> string \<Rightarrow> error + ('d ParseState \<times> string)" where
  "read_particles fcd 0 s sv = Inr (s, sv)"
| "read_particles fcd (Suc k) s sv =
     (case store (iptc_arr s) (cur_particle s * 7) (cur_event s) of
        Inl e \<Rightarrow> Inl e
      | Inr ip0 \<Rightarrow>
     (case consume_row from_chars_int 6 ip0 (cur_particle s * 7 + 1) sv of
        Inl e \<Rightarrow> Inl e
      | Inr (ip, sv1) \<Rightarrow>
     (case consume_row fcd 7 (fptc_arr s) (cur_particle s * 7) sv1 of
        Inl e \<Rightarrow> Inl e
      | Inr (fp, sv2) \<Rightarrow>
          read_particles fcd k
            (s\<lparr>iptc_arr := ip, fptc_arr := fp, cur_particle := cur_particle s + 1\<rparr>) sv2)))"

definition processEvent :: "(string \<Rightarrow> 'd option) \<Rightarrow> 'd ParseState \<Rightarrow> error + 'd ParseState" where
  "processEvent fcd s =
     (case consume_next from_chars_int (charBuf s) of
        (None, sv) \<Rightarrow> Inl (TokenParseError (cur_event s))
      | (Some n_ptc, sv) \<Rightarrow>
     (case store (ievt_arr s) (cur_event s * 2) n_ptc of
        Inl e \<Rightarrow> Inl e
      | Inr ie0 \<Rightarrow>
     (case consume_into from_chars_int ie0 (cur_event s * 2 + 1) sv of
        Inl e \<Rightarrow> Inl e
      | Inr (ie, sv1) \<Rightarrow>
     (case consume_row fcd 4 (fevt_arr s) (cur_event s * (4 + n_weights s)) sv1 of
        Inl e \<Rightarrow> Inl e
      | Inr (fe, sv2) \<Rightarrow>
     (case read_particles fcd (nat n_ptc) (s\<lparr>ievt_arr := ie, fevt_arr := fe\<rparr>) sv2 of
        Inl e \<Rightarrow> Inl e
      | Inr (s', sv3) \<Rightarrow> Inr s')))))"

definition processWeight :: "(string \<Rightarrow> 'd option) \<Rightarrow> 'd ParseState \<Rightarrow> error + 'd ParseState" where
  "processWeight fcd s =
     (case consume_into fcd (fevt_arr s)
             (cur_event s * (4 + n_weights s) + (4 + cur_weight s)) (charBuf s) of
        Inl e \<Rightarrow> Inl e
      | Inr (fe, sv) \<Rightarrow>
          Inr (s\<lparr>fevt_arr := fe, cur_weight := cur_weight s + 1, charBuf := [],
                 capture := NO_CAPTURE\<rparr>))"

subsection \<open>The SAX callbacks\<close>

datatype sax =
    StartElement string "(string \<times> string) list"
  | EndElement string
  | CharacterData string

definition onStart :: "(string \<Rightarrow> 'd option) \<Rightarrow> string \<Rightarrow> (string \<times> string) list \<Rightarrow> 'd ParseState \<Rightarrow> error + 'd ParseState" where
  "onStart fcd name attributes s =
     (case (if name = ''event'' then Inr (s\<lparr>capture := EVENT_HEADER, cur_weight := 0\<rparr>)
            else if capture s = EVENT_HEADER then
              (case processEvent fcd s of
                 Inl e \<Rightarrow> Inl e
               | Inr s1 \<Rightarrow> Inr (s1\<lparr>charBuf := [], capture := NO_CAPTURE\<rparr>))
            else Inr s) of
        Inl e \<Rightarrow> Inl e
      | Inr s2 \<Rightarrow> Inr (if name = ''wgt'' then s2\<lparr>capture := WGT_TAG\<rparr> else s2))"

definition onEnd :: "(string \<Rightarrow> 'd option) \<Rightarrow> string \<Rightarrow> 'd ParseState \<Rightarrow> error + 'd ParseState" where
  "onEnd fcd name s =
     (if name = ''event'' then Inr (s\<lparr>cur_event := cur_event s + 1\<rparr>)
      else if name = ''wgt'' then processWeight fcd s
      else Inr s)"

definition onChar :: "string \<Rightarrow> 'd ParseState \<Rightarrow> 'd ParseState" where
  "onChar buf s = (if capture s \<noteq> 0 then s\<lparr>charBuf := charBuf s @ buf\<rparr> else s)"

text \<open>One callback, and the callbacks of a whole document in the order expat makes them.\<close>

fun dispatch :: "(string \<Rightarrow> 'd option) \<Rightarrow> sax \<Rightarrow> 'd ParseState \<Rightarrow> error + 'd ParseState" where
  "dispatch fcd (StartElement name attributes) s = onStart fcd name attributes s"
| "dispatch fcd (EndElement name) s = onEnd fcd name s"
| "dispatch fcd (CharacterData buf) s = Inr (onChar buf s)"

fun run :: "(string \<Rightarrow> 'd option) \<Rightarrow> sax list \<Rightarrow> 'd ParseState \<Rightarrow> error + 'd ParseState" where
  "run fcd [] s = Inr s"
| "run fcd (ev # evs) s =
     (case dispatch fcd ev s of Inl e \<Rightarrow> Inl e | Inr s' \<Rightarrow> run fcd evs s')"

section \<open>parseLHE\<close>

text \<open>A two-dimensional numpy array: its shape and its row-major data.\<close>

record 'a ndarray =
  nrows :: int
  ncols :: int
  data :: "'a list"

definition row :: "'a ndarray \<Rightarrow> nat \<Rightarrow> 'a list" where
  "row a r = take (nat (ncols a)) (drop (r * nat (ncols a)) (data a))"

definition rows :: "'a ndarray \<Rightarrow> 'a list list" where
  "rows a = map (row a) [0 ..< nat (nrows a)]"

definition zeros :: "int \<Rightarrow> int \<Rightarrow> 'a::zero list" where
  "zeros r c = replicate (nat (r * c)) 0"

definition init_state :: "int \<Rightarrow> int \<Rightarrow> int \<Rightarrow> ('d::zero) ParseState" where
  "init_state ne nw np =
     \<lparr>fevt_arr = zeros ne (4 + nw), ievt_arr = zeros ne 2,
      fptc_arr = zeros np 7, iptc_arr = zeros np 7,
      n_weights = nw, n_events = ne, n_particles = np,
      cur_event = 0, cur_weight = 0, cur_particle = 0,
      capture = NO_CAPTURE, charBuf = []\<rparr>"

text \<open>
  The tokenizer is expat, outside the repository: \<open>xml content\<close> is the sequence of
  callbacks the chunked \<^verbatim>\<open>XML_Parse\<close> loop makes on the file, and the line and message of
  the error it then reports, if any.  A callback that throws ends the parse before that.
\<close>

definition parseLHE :: "(string \<Rightarrow> sax list \<times> (int \<times> string) option) \<Rightarrow> (string \<Rightarrow> 'd option) \<Rightarrow> string option
    \<Rightarrow> error + (int ndarray \<times> ('d::zero) ndarray \<times> int ndarray \<times> 'd ndarray)" where
  "parseLHE xml fcd file =
     (case countDimensions file of
        Inl e \<Rightarrow> Inl e
      | Inr (ne, nw, np) \<Rightarrow>
          if ne = 0 \<or> nw = 0 \<or> np = 0 then Inl EmptyInputError
          else if ne < 0 \<or> 4 + nw < 0 \<or> np < 0 then Inl NegativeDimension
          else (case file of
                  None \<Rightarrow> Inl FileOpenError
                | Some content \<Rightarrow>
                    (case run fcd (fst (xml content)) (init_state ne nw np) of
                       Inl e \<Rightarrow> Inl e
                     | Inr s \<Rightarrow>
                         (case snd (xml content) of
                            Some (lineno, msg) \<Rightarrow> Inl (XMLSyntaxError lineno msg)
                          | None \<Rightarrow>
                              Inr (\<lparr>nrows = ne, ncols = 2, data = ievt_arr s\<rparr>,
                                   \<lparr>nrows = ne, ncols = 4 + nw, data = fevt_arr s\<rparr>,
                                   \<lparr>nrows = np, ncols = 7, data = iptc_arr s\<rparr>,
                                   \<lparr>nrows = np, ncols = 7, data = fptc_arr s\<rparr>)))))"

section \<open>Vocabulary of the properties\<close>

definition is_event_start :: "sax \<Rightarrow> bool" where
  "is_event_start ev = (case ev of StartElement name attributes \<Rightarrow> name = ''event'' | _ \<Rightarrow> False)"

definition is_wgt_end :: "sax \<Rightarrow> bool" where
  "is_wgt_end ev = (ev = EndElement ''wgt'')"

text \<open>The flat index \<^verbatim>\<open>fe + 4 + cur_weight\<close> that processWeight hands to consume\_next.\<close>

definition weight_slot :: "'d ParseState \<Rightarrow> int" where
  "weight_slot s = cur_event s * (4 + n_weights s) + (4 + cur_weight s)"

text \<open>
  The white-space separated tokens of a buffer, in order.  consume\_next reads them one by
  one (lemma \<open>consume_next_tokens\<close> below), so the field read by the \<open>k\<close>-th call gets the
  \<open>k\<close>-th token: \<open>token_value fc toks k\<close> is what \<^verbatim>\<open>std::from_chars\<close> makes of it, and
  \<open>None\<close> when the token is missing or does not convert.  \<open>written r old\<close> is the content
  of a slot after such a read.
\<close>

fun tokens_from :: "string \<Rightarrow> string \<Rightarrow> string list" where
  "tokens_from cur [] = (if cur = [] then [] else [cur])"
| "tokens_from cur (c # cs) =
     (if is_delim c then (if cur = [] then tokens_from [] cs else cur # tokens_from [] cs)
      else tokens_from (cur @ [c]) cs)"

definition tokens :: "string \<Rightarrow> string list" where
  "tokens sv = tokens_from [] sv"

definition token_value :: "(string \<Rightarrow> 'a option) \<Rightarrow> string list \<Rightarrow> nat \<Rightarrow> 'a option" where
  "token_value fc toks k = (if k < length toks then fc (toks ! k) else None)"

definition written :: "'a option \<Rightarrow> 'a \<Rightarrow> 'a" where
  "written r old = (case r of None \<Rightarrow> old | Some v \<Rightarrow> v)"

text \<open>
  What the integer reader makes of a token, said on its characters: the digits it reads are
  the longest run of decimal digits after an optional minus sign, and the number is their
  value with that sign (lemma \<open>from_chars_int_conv\<close> below).
\<close>

definition leading_digits :: "string \<Rightarrow> string" where
  "leading_digits t = takeWhile is_digit (if t \<noteq> [] \<and> hd t = CHR ''-'' then tl t else t)"

definition leading_value :: "string \<Rightarrow> int" where
  "leading_value t =
     (if t \<noteq> [] \<and> hd t = CHR ''-'' then - dec_from 0 (leading_digits t)
      else dec_from 0 (leading_digits t))"

text \<open>
  The word "numeric" of the specification, read as a decimal integer literal: an optional
  sign, then one or more digits, and nothing else.
\<close>

definition spec_numeric :: "string \<Rightarrow> bool" where
  "spec_numeric t =
     (let body = (if t \<noteq> [] \<and> (hd t = CHR ''-'' \<or> hd t = CHR ''+'') then tl t else t)
      in body \<noteq> [] \<and> list_all is_digit body)"

text \<open>
  The buffers have room for the event at the cursors: one row of i\_evt, the four reals of
  a row of f\_evt, and \<open>n\<close> rows of i\_ptc and f\_ptc.
\<close>

definition room :: "'d ParseState \<Rightarrow> int \<Rightarrow> bool" where
  "room s n =
     (0 \<le> cur_event s \<and> cur_event s * 2 + 2 \<le> int (length (ievt_arr s)) \<and>
      0 \<le> cur_event s * (4 + n_weights s) \<and>
      cur_event s * (4 + n_weights s) + 4 \<le> int (length (fevt_arr s)) \<and>
      0 \<le> cur_particle s \<and>
      (cur_particle s + int (nat n)) * 7 \<le> int (length (iptc_arr s)) \<and>
      (cur_particle s + int (nat n)) * 7 \<le> int (length (fptc_arr s)))"

text \<open>
  Column 0 of row \<open>r\<close> of i\_ptc, the owning event, and the invariant of pass 2 about it:
  over the rows below the particle cursor the owners never decrease and never exceed the
  event cursor.
\<close>

definition owner :: "'d ParseState \<Rightarrow> nat \<Rightarrow> int" where
  "owner s r = iptc_arr s ! (7 * r)"

definition owners_ordered :: "'d ParseState \<Rightarrow> bool" where
  "owners_ordered s =
     (0 \<le> cur_particle s \<and>
      (\<forall>r. int r < cur_particle s \<longrightarrow> 7 * r < length (iptc_arr s) \<and> owner s r \<le> cur_event s) \<and>
      (\<forall>r1 r2. r1 \<le> r2 \<and> int r2 < cur_particle s \<longrightarrow> owner s r1 \<le> owner s r2))"

text \<open>The sum of column 0 of an integer array.\<close>

definition column0_sum :: "int ndarray \<Rightarrow> int" where
  "column0_sum a = sum_list (map (\<lambda>r. data a ! (r * nat (ncols a))) [0 ..< nat (nrows a)])"

section \<open>Sample documents\<close>

text \<open>
  \<^verbatim>\<open>std::from_chars\<close> for \<^verbatim>\<open>double\<close> is a parameter of the model.  Where a document is
  evaluated, this reader of plain decimal tokens (sign, digits, point, digits) stands for it;
  it is exact, and the tokens of the sample documents denote binary fractions, which the
  library function converts exactly as well.
\<close>

definition from_chars_decimal :: "string \<Rightarrow> real option" where
  "from_chars_decimal token =
     (let neg = (token \<noteq> [] \<and> hd token = CHR ''-'');
          body = (if neg then tl token else token);
          ip = takeWhile is_digit body;
          rest = dropWhile is_digit body;
          fp = (if rest \<noteq> [] \<and> hd rest = CHR ''.'' then takeWhile is_digit (tl rest) else [])
      in if ip = [] \<and> fp = [] then None
         else let v = of_int (dec_from 0 ip) + of_int (dec_from 0 fp) / 10 ^ length fp
              in Some (if neg then - v else v))"

definition unlines :: "string list \<Rightarrow> string" where
  "unlines ls = concat (map (\<lambda>l. l @ [NL]) ls)"

text \<open>
  The document of the concrete scenario: one event block with its header, two particle
  lines and one \<^verbatim>\<open>wgt\<close> element, and the callbacks expat makes on it.
\<close>

definition c1_file :: string where
  \<open>c1_file = unlines
     [''<event>'',
      ''2 1 1.0 2.0 3.0 4.0'',
      ''21 -1 0 0 501 502 0.0 0.0 1.0 1.0 0.0 0.0 1.0'',
      ''21 -1 0 0 502 501 0.0 0.0 -1.0 1.0 0.0 0.0 -1.0'',
      ''<wgt id="w0">0.5</wgt>'',
      ''</event>'']\<close>

definition c1_events :: "sax list" where
  "c1_events =
     [StartElement ''event'' [],
      CharacterData (NL # ''2 1 1.0 2.0 3.0 4.0'' @ NL #
        ''21 -1 0 0 501 502 0.0 0.0 1.0 1.0 0.0 0.0 1.0'' @ NL #
        ''21 -1 0 0 502 501 0.0 0.0 -1.0 1.0 0.0 0.0 -1.0'' @ [NL]),
      StartElement ''wgt'' [(''id'', ''w0'')],
      CharacterData ''0.5'',
      EndElement ''wgt'',
      CharacterData [NL],
      EndElement ''event'']"

text \<open>The same event inside a document that declares one weight in its header.\<close>

definition c1w_file :: string where
  \<open>c1w_file = unlines
     [''<LesHouchesEvents>'',
      ''<initrwgt>'',
      ''<weight id="w0">central</weight>'',
      ''</initrwgt>'',
      ''<event>'',
      ''2 1 1.0 2.0 3.0 4.0'',
      ''21 -1 0 0 501 502 0.0 0.0 1.0 1.0 0.0 0.0 1.0'',
      ''21 -1 0 0 502 501 0.0 0.0 -1.0 1.0 0.0 0.0 -1.0'',
      ''<wgt id="w0">0.5</wgt>'',
      ''</event>'',
      ''</LesHouchesEvents>'']\<close>

definition c1w_events :: "sax list" where
  "c1w_events =
     [StartElement ''LesHouchesEvents'' [], CharacterData [NL],
      StartElement ''initrwgt'' [], CharacterData [NL],
      StartElement ''weight'' [(''id'', ''w0'')], CharacterData ''central'', EndElement ''weight'',
      CharacterData [NL], EndElement ''initrwgt'', CharacterData [NL]] @ c1_events @
     [CharacterData [NL], EndElement ''LesHouchesEvents'']"

text \<open>A document without any event.\<close>

definition empty_file :: string where
  "empty_file = unlines [''<LesHouchesEvents>'', ''</LesHouchesEvents>'']"

definition empty_events :: "sax list" where
  "empty_events =
     [StartElement ''LesHouchesEvents'' [], CharacterData [NL], EndElement ''LesHouchesEvents'']"

text \<open>
  A document without weight declarations whose only event claims a negative number of
  particles.
\<close>

definition c4_file :: string where
  "c4_file = unlines [''<LesHouchesEvents>'', ''<event>'', ''-1 1 1.0 2.0 3.0 4.0'', ''</event>'',
     ''</LesHouchesEvents>'']"

definition c4_events :: "sax list" where
  "c4_events =
     [StartElement ''LesHouchesEvents'' [], CharacterData [NL],
      StartElement ''event'' [], CharacterData (NL # ''-1 1 1.0 2.0 3.0 4.0'' @ [NL]),
      EndElement ''event'', CharacterData [NL], EndElement ''LesHouchesEvents'']"

text \<open>A document that declares a weight and whose only event has no child element.\<close>

definition c3_file :: string where
  \<open>c3_file = unlines
     [''<LesHouchesEvents>'',
      ''<weight id="w0">central</weight>'',
      ''<event>'',
      ''2 1 1.0 2.0 3.0 4.0'',
      ''21 -1 0 0 501 502 0.0 0.0 1.0 1.0 0.0 0.0 1.0'',
      ''21 -1 0 0 502 501 0.0 0.0 -1.0 1.0 0.0 0.0 -1.0'',
      ''</event>'',
      ''</LesHouchesEvents>'']\<close>

definition c3_events :: "sax list" where
  "c3_events =
     [StartElement ''LesHouchesEvents'' [], CharacterData [NL],
      StartElement ''weight'' [(''id'', ''w0'')], CharacterData ''central'', EndElement ''weight'',
      CharacterData [NL],
      StartElement ''event'' [],
      CharacterData (NL # ''2 1 1.0 2.0 3.0 4.0'' @ NL #
        ''21 -1 0 0 501 502 0.0 0.0 1.0 1.0 0.0 0.0 1.0'' @ NL #
        ''21 -1 0 0 502 501 0.0 0.0 -1.0 1.0 0.0 0.0 -1.0'' @ [NL]),
      EndElement ''event'', CharacterData [NL],
      EndElement ''LesHouchesEvents'']"

text \<open>An event whose header line does not start with an integer.\<close>

definition c5_file :: string where
  "c5_file = unlines [''<LesHouchesEvents>'', ''<event>'', ''two 1 1.0 2.0 3.0 4.0'', ''</event>'',
     ''</LesHouchesEvents>'']"

text \<open>
  States in which the event extractor is about to run: at event 2 of 3 on a given buffer,
  with the state it returns on the buffer \<^verbatim>\<open>2x 1\<close>;
  on a buffer with a malformed IDPRUP and SCALUP and nothing after AQEDUP; and at event 1
  with two particle rows already written.  \<open>c7_weight\<close> is a state in which the weight
  extractor is about to run on text that is no number.
\<close>

definition c6_state :: "string \<Rightarrow> real ParseState" where
  "c6_state buf = (init_state 3 1 2)\<lparr>cur_event := 2, capture := EVENT_HEADER, charBuf := buf\<rparr>"

definition c6_after :: "real ParseState" where
  "c6_after = (c6_state ''2x 1'')\<lparr>ievt_arr := [0, 0, 0, 0, 2, 1],
     iptc_arr := [2, 0, 0, 0, 0, 0, 0, 2, 0, 0, 0, 0, 0, 0], cur_particle := 2\<rparr>"

definition c7_state :: "real ParseState" where
  "c7_state = (init_state 1 1 1)\<lparr>capture := EVENT_HEADER, charBuf := ''1 x 1.0 oops 3.0''\<rparr>"

definition c7_after :: "real ParseState" where
  "c7_after = c7_state\<lparr>ievt_arr := [1, 0], fevt_arr := [1, 0, 3, 0, 0], cur_particle := 1\<rparr>"

definition c7_weight :: "real ParseState" where
  "c7_weight = (init_state 1 1 1)\<lparr>capture := WGT_TAG, charBuf := ''n/a''\<rparr>"

definition c8_start :: "real ParseState" where
  "c8_start = (init_state 2 1 3)\<lparr>cur_event := 1, cur_particle := 2, capture := EVENT_HEADER,
     charBuf := ''1 1 1.0 2.0 3.0 4.0 22 1''\<rparr>"

definition c8_after :: "real ParseState" where
  "c8_after = c8_start\<lparr>ievt_arr := [0, 0, 1, 1], fevt_arr := [0, 0, 0, 0, 0, 1, 2, 3, 4, 0],
     iptc_arr := [0, 0, 0, 0, 0, 0, 0, 0, 0, 0, 0, 0, 0, 0, 1, 22, 1, 0, 0, 0, 0],
     cur_particle := 3\<rparr>"

text \<open>Two events with two and one particles, and the state pass 2 ends in.\<close>

definition c8_events :: "sax list" where
  "c8_events =
     [StartElement ''LesHouchesEvents'' [],
      StartElement ''event'' [],
      CharacterData (NL # ''2 1 1.0 2.0 3.0 4.0'' @ NL #
        ''21 -1 0 0 501 502 0.0 0.0 1.0 1.0 0.0 0.0 1.0'' @ NL #
        ''21 -1 0 0 502 501 0.0 0.0 -1.0 1.0 0.0 0.0 -1.0'' @ [NL]),
      StartElement ''wgt'' [(''id'', ''w0'')], CharacterData ''0.5'', EndElement ''wgt'',
      EndElement ''event'',
      StartElement ''event'' [],
      CharacterData (NL # ''1 1 1.0 2.0 3.0 4.0'' @ NL #
        ''22 1 0 0 0 0 0.0 0.0 2.0 2.0 0.0 0.0 1.0'' @ [NL]),
      StartElement ''wgt'' [(''id'', ''w0'')], CharacterData ''0.25'', EndElement ''wgt'',
      EndElement ''event'',
      EndElement ''LesHouchesEvents'']"

definition c8_final :: "real ParseState" where
  "c8_final =
     \<lparr>fevt_arr = [1, 2, 3, 4, 1/2, 1, 2, 3, 4, 1/4], ievt_arr = [2, 1, 1, 1],
      fptc_arr = [0, 0, 1, 1, 0, 0, 1, 0, 0, - 1, 1, 0, 0, - 1, 0, 0, 2, 2, 0, 0, 1],
      iptc_arr = [0, 21, - 1, 0, 0, 501, 502, 0, 21, - 1, 0, 0, 502, 501, 1, 22, 1, 0, 0, 0, 0],
      n_weights = 1, n_events = 2, n_particles = 3, cur_event = 2, cur_weight = 1,
      cur_particle = 3, capture = NO_CAPTURE, charBuf = []\<rparr>"

text \<open>
  Two events in a document that declares one weight.  The first has \<^verbatim>\<open>5.9\<close> where IDPRUP
  is read and closes two \<^verbatim>\<open>wgt\<close> elements, the second has \<^verbatim>\<open>oops\<close> where XWGTUP is read.
  \<open>c7_final\<close> is the state pass 2 ends in.
\<close>

definition c7_file :: string where
  \<open>c7_file = unlines
     [''<LesHouchesEvents>'',
      ''<weight id="w0">central</weight>'',
      ''<event>'',
      ''1 5.9 1.0 2.0 3.0 4.0'',
      ''21 -1 0 0 501 502 0.0 0.0 1.0 1.0 0.0 0.0 1.0'',
      ''<wgt id="w0">0.5</wgt>'',
      ''<wgt id="w1">0.25</wgt>'',
      ''</event>'',
      ''<event>'',
      ''1 1 oops 2.0 3.0 4.0'',
      ''21 -1 0 0 501 502 0.0 0.0 1.0 1.0 0.0 0.0 1.0'',
      ''<wgt id="w0">0.5</wgt>'',
      ''</event>'',
      ''</LesHouchesEvents>'']\<close>

definition c7_events :: "sax list" where
  "c7_events =
     [StartElement ''LesHouchesEvents'' [], CharacterData [NL],
      StartElement ''weight'' [(''id'', ''w0'')], CharacterData ''central'', EndElement ''weight'',
      CharacterData [NL],
      StartElement ''event'' [],
      CharacterData (NL # ''1 5.9 1.0 2.0 3.0 4.0'' @ NL #
        ''21 -1 0 0 501 502 0.0 0.0 1.0 1.0 0.0 0.0 1.0'' @ [NL]),
      StartElement ''wgt'' [(''id'', ''w0'')], CharacterData ''0.5'', EndElement ''wgt'',
      CharacterData [NL],
      StartElement ''wgt'' [(''id'', ''w1'')], CharacterData ''0.25'', EndElement ''wgt'',
      CharacterData [NL], EndElement ''event'', CharacterData [NL],
      StartElement ''event'' [],
      CharacterData (NL # ''1 1 oops 2.0 3.0 4.0'' @ NL #
        ''21 -1 0 0 501 502 0.0 0.0 1.0 1.0 0.0 0.0 1.0'' @ [NL]),
      StartElement ''wgt'' [(''id'', ''w0'')], CharacterData ''0.5'', EndElement ''wgt'',
      CharacterData [NL], EndElement ''event'', CharacterData [NL],
      EndElement ''LesHouchesEvents'']"

definition c7_final :: "real ParseState" where
  "c7_final =
     \<lparr>fevt_arr = [1, 2, 3, 4, 1/2, 1/4, 2, 3, 4, 1/2], ievt_arr = [1, 5, 1, 1],
      fptc_arr = [0, 0, 1, 1, 0, 0, 1, 0, 0, 1, 1, 0, 0, 1],
      iptc_arr = [0, 21, - 1, 0, 0, 501, 502, 1, 21, - 1, 0, 0, 501, 502],
      n_weights = 1, n_events = 2, n_particles = 2, cur_event = 2, cur_weight = 1,
      cur_particle = 2, capture = NO_CAPTURE, charBuf = []\<rparr>"

text \<open>
  Two events, the second with an attribute on its tag and without child elements.
\<close>

definition c9_file :: string where
  \<open>c9_file = unlines
     [''<LesHouchesEvents>'',
      ''<weight id="w0">central</weight>'',
      ''<event>'',
      ''1 1 1.0 2.0 3.0 4.0'',
      ''21 -1 0 0 501 502 0.0 0.0 1.0 1.0 0.0 0.0 1.0'',
      ''<wgt id="w0">0.5</wgt>'',
      ''</event>'',
      ''<event npart="0">'',
      ''0 1 1.0 2.0 3.0 4.0'',
      ''</event>'',
      ''</LesHouchesEvents>'']\<close>

definition c9_events :: "sax list" where
  "c9_events =
     [StartElement ''LesHouchesEvents'' [], CharacterData [NL],
      StartElement ''weight'' [(''id'', ''w0'')], CharacterData ''central'', EndElement ''weight'',
      CharacterData [NL],
      StartElement ''event'' [],
      CharacterData (NL # ''1 1 1.0 2.0 3.0 4.0'' @ NL #
        ''21 -1 0 0 501 502 0.0 0.0 1.0 1.0 0.0 0.0 1.0'' @ [NL]),
      StartElement ''wgt'' [(''id'', ''w0'')], CharacterData ''0.5'', EndElement ''wgt'',
      CharacterData [NL], EndElement ''event'', CharacterData [NL],
      StartElement ''event'' [(''npart'', ''0'')],
      CharacterData (NL # ''0 1 1.0 2.0 3.0 4.0'' @ [NL]),
      EndElement ''event'', CharacterData [NL],
      EndElement ''LesHouchesEvents'']"

text \<open>
  The callbacks inside one event that closes three \<^verbatim>\<open>wgt\<close> elements, the last with text
  that is no number.
\<close>

definition c10_events :: "sax list" where
  "c10_events =
     [CharacterData ''0 1 1.0 2.0 3.0 4.0'',
      StartElement ''wgt'' [], CharacterData ''0.5'', EndElement ''wgt'',
      StartElement ''wgt'' [], CharacterData ''0.25'', EndElement ''wgt'',
      StartElement ''wgt'' [], CharacterData ''n/a'', EndElement ''wgt'']"

section \<open>Evaluation\<close>

lemmas eval_defs = parseLHE_def countDimensions_def getlines_def newline_ended_def unlines_def
  count_weight_def add_particles_def in_int_range_def INT_MAX_def INT_MIN_def istream_int_def
  is_space_def is_digit_def digit_val_def from_chars_int_def init_state_def zeros_def
  onStart_def onEnd_def onChar_def processEvent_def processWeight_def consume_into_def
  consume_next_def is_delim_def store_def NO_CAPTURE_def EVENT_HEADER_def WGT_TAG_def
  from_chars_decimal_def

lemma rows_1_2: "rows \<lparr>nrows = 1, ncols = 2, data = [a, b]\<rparr> = [[a, b]]"
  by (simp add: rows_def row_def)

lemma rows_1_5: "rows \<lparr>nrows = 1, ncols = 5, data = [a, b, c, d, e]\<rparr> = [[a, b, c, d, e]]"
  by (simp add: rows_def row_def)

lemma rows_2_7:
  "rows \<lparr>nrows = 2, ncols = 7, data = [a1, a2, a3, a4, a5, a6, a7, b1, b2, b3, b4, b5, b6, b7]\<rparr> =
   [[a1, a2, a3, a4, a5, a6, a7], [b1, b2, b3, b4, b5, b6, b7]]"
  by (simp add: rows_def row_def upt_rec numeral_eq_Suc)

lemma rows_2_2: "rows \<lparr>nrows = 2, ncols = 2, data = [a1, a2, b1, b2]\<rparr> = [[a1, a2], [b1, b2]]"
  by (simp add: rows_def row_def upt_rec numeral_eq_Suc)

lemma rows_2_5:
  "rows \<lparr>nrows = 2, ncols = 5, data = [a1, a2, a3, a4, a5, b1, b2, b3, b4, b5]\<rparr> =
   [[a1, a2, a3, a4, a5], [b1, b2, b3, b4, b5]]"
  by (simp add: rows_def row_def upt_rec numeral_eq_Suc)

lemma zeros_nth: "j < length (zeros r c :: 'a::zero list) \<Longrightarrow> (zeros r c :: 'a list) ! j = 0"
  by (simp add: zeros_def)

section \<open>The scan of pass 1\<close>

lemma scan_lines_skip:
  "\<not> found ''<event>'' line \<Longrightarrow>
   scan_lines nl (line # rest) ne nw np lnum = scan_lines nl rest ne (count_weight line nw) np (lnum + 1)"
  by (cases rest) simp_all

lemma scan_lines_bad_header:
  "found ''<event>'' line \<Longrightarrow> istream_int header = None \<Longrightarrow>
   scan_lines nl (line # header # rest) ne nw np lnum = Inl (DimensionScanError (lnum + 2))"
  by simp

lemma scan_lines_events_le:
  "scan_lines nl ls a b c d = Inr (a', b', c') \<Longrightarrow>
   a' \<le> a + int (length (filter (found ''<event>'') ls))"
proof (induction nl ls a b c d rule: scan_lines.induct)
  case (1 nl a b c d)
  then show ?case by simp
next
  case (2 nl line a b c d)
  then show ?case by (auto split: if_splits option.splits sum.splits)
next
  case (3 nl line header rest a b c d)
  show ?case
  proof (cases "found ''<event>'' line")
    case True
    then obtain n np where n: "istream_int header = Some n" and np: "add_particles c n = Inr np"
      and run: "scan_lines nl rest (a + 1) (count_weight header b) np (d + 2) = Inr (a', b', c')"
      using 3(3) by (auto split: option.splits sum.splits)
    from 3(1)[OF True n np run] True show ?thesis by simp
  next
    case False
    then have run: "scan_lines nl (header # rest) a (count_weight line b) c (d + 1) = Inr (a', b', c')"
      using 3(3) by simp
    from 3(2)[OF False run] False show ?thesis by simp
  qed
qed

text \<open>
  A prefix that scans without failure as a newline-ended file of its own is passed over
  in the same way inside a longer file; the line counter advances by its length.
\<close>

lemma scan_lines_append:
  "scan_lines True pre a b c d = Inr r \<Longrightarrow>
   scan_lines nl (pre @ rest) a b c d =
     (case r of (a', b', c') \<Rightarrow> scan_lines nl rest a' b' c' (d + int (length pre)))"
proof (induction True pre a b c d arbitrary: r rule: scan_lines.induct)
  case (1 a b c d)
  then show ?case by auto
next
  case (2 line a b c d)
  have ne: "\<not> found ''<event>'' line"
    using "2.prems" by (auto simp: istream_int_def split: if_splits)
  then have r: "r = (a, count_weight line b, c)" using "2.prems" by simp
  show ?case
  proof (cases rest)
    case Nil
    then show ?thesis using ne r by simp
  next
    case (Cons h t)
    then show ?thesis using ne r by simp
  qed
next
  case (3 line header rest' a b c d)
  show ?case
  proof (cases "found ''<event>'' line")
    case True
    then obtain n np where n: "istream_int header = Some n" and np: "add_particles c n = Inr np"
      and run: "scan_lines True rest' (a + 1) (count_weight header b) np (d + 2) = Inr r"
      using "3.prems" by (auto split: option.splits sum.splits)
    have "scan_lines nl (rest' @ rest) (a + 1) (count_weight header b) np (d + 2) =
          (case r of (a', b', c') \<Rightarrow> scan_lines nl rest a' b' c' (d + 2 + int (length rest')))"
      using "3.hyps"(1)[OF True n np run] .
    then show ?thesis using True n np by (simp add: add.assoc)
  next
    case False
    then have run: "scan_lines True (header # rest') a (count_weight line b) c (d + 1) = Inr r"
      using "3.prems" by simp
    have "scan_lines nl ((header # rest') @ rest) a (count_weight line b) c (d + 1) =
          (case r of (a', b', c') \<Rightarrow> scan_lines nl rest a' b' c' (d + 1 + int (length (header # rest'))))"
      using "3.hyps"(2)[OF False run] .
    then show ?thesis using False by (simp add: add.assoc)
  qed
qed

section \<open>Tokens and slots\<close>

lemma find_first_not_of_None: "find_first_not_of sv = None \<longleftrightarrow> dropWhile is_delim sv = []"
  by (induction sv) auto

lemma find_first_not_of_Some:
  "find_first_not_of sv = Some b \<Longrightarrow> drop b sv = dropWhile is_delim sv"
  by (induction sv arbitrary: b) (auto split: if_splits)

lemma find_first_of_None:
  "find_first_of sv = None \<Longrightarrow> takeWhile (\<lambda>c. \<not> is_delim c) sv = sv"
  by (induction sv) (auto split: if_splits)

lemma find_first_of_Some:
  "find_first_of sv = Some e \<Longrightarrow>
   take e sv = takeWhile (\<lambda>c. \<not> is_delim c) sv \<and> drop e sv = dropWhile (\<lambda>c. \<not> is_delim c) sv"
  by (induction sv arbitrary: e) (auto split: if_splits)

lemma find_first_of_None_drop:
  "find_first_of sv = None \<Longrightarrow> dropWhile (\<lambda>c. \<not> is_delim c) sv = []"
  by (induction sv) (auto split: if_splits)

lemma consume_next_eq:
  "consume_next fc sv =
     (let sv1 = dropWhile is_delim sv in
      if sv1 = [] then (None, sv)
      else (fc (takeWhile (\<lambda>c. \<not> is_delim c) sv1), dropWhile (\<lambda>c. \<not> is_delim c) sv1))"
proof (cases "find_first_not_of sv")
  case None
  then have "dropWhile is_delim sv = []" by (simp only: find_first_not_of_None)
  with None show ?thesis by (simp add: consume_next_def del: dropWhile_eq_Nil_conv)
next
  case (Some b)
  then have d: "drop b sv = dropWhile is_delim sv" by (rule find_first_not_of_Some)
  from Some have ne: "dropWhile is_delim sv \<noteq> []"
    unfolding find_first_not_of_None[symmetric] by simp
  show ?thesis
  proof (cases "find_first_of (dropWhile is_delim sv)")
    case None
    then show ?thesis
      using Some d ne
      by (simp add: consume_next_def Let_def find_first_of_None find_first_of_None_drop
          del: dropWhile_eq_Nil_conv)
  next
    case (Some e)
    then show ?thesis
      using \<open>find_first_not_of sv = Some b\<close> d ne find_first_of_Some[OF Some]
      by (simp add: consume_next_def Let_def del: dropWhile_eq_Nil_conv)
  qed
qed

lemma tokens_from_nonempty:
  "cur \<noteq> [] \<Longrightarrow>
   tokens_from cur cs =
     (cur @ takeWhile (\<lambda>c. \<not> is_delim c) cs) # tokens_from [] (dropWhile (\<lambda>c. \<not> is_delim c) cs)"
  by (induction cs arbitrary: cur) auto

lemma tokens_from_skip: "tokens_from [] cs = tokens_from [] (dropWhile is_delim cs)"
  by (induction cs) auto

lemma tokens_from_word:
  "cs \<noteq> [] \<Longrightarrow> \<not> is_delim (hd cs) \<Longrightarrow>
   tokens_from [] cs =
     takeWhile (\<lambda>c. \<not> is_delim c) cs # tokens_from [] (dropWhile (\<lambda>c. \<not> is_delim c) cs)"
  by (cases cs) (auto simp: tokens_from_nonempty)

lemma consume_next_tokens:
  "fst (consume_next fc sv) = token_value fc (tokens sv) 0 \<and>
   tokens (snd (consume_next fc sv)) = tl (tokens sv)"
proof (cases "dropWhile is_delim sv = []")
  case True
  have "tokens sv = tokens_from [] (dropWhile is_delim sv)"
    unfolding tokens_def by (rule tokens_from_skip)
  also have "\<dots> = []" by (simp add: True del: dropWhile_eq_Nil_conv)
  finally have "tokens sv = []" .
  with True show ?thesis
    by (simp add: consume_next_eq token_value_def del: dropWhile_eq_Nil_conv)
next
  case False
  then have h: "\<not> is_delim (hd (dropWhile is_delim sv))" by (rule hd_dropWhile)
  have "tokens sv = tokens_from [] (dropWhile is_delim sv)"
    using tokens_from_skip[of sv] by (simp add: tokens_def)
  also have "\<dots> = takeWhile (\<lambda>c. \<not> is_delim c) (dropWhile is_delim sv) #
      tokens_from [] (dropWhile (\<lambda>c. \<not> is_delim c) (dropWhile is_delim sv))"
    using tokens_from_word[OF False h] .
  finally show ?thesis using False
    by (simp add: consume_next_eq token_value_def tokens_def Let_def del: dropWhile_eq_Nil_conv)
qed

lemma token_value_drop: "token_value fc (drop n toks) k = token_value fc toks (n + k)"
  by (auto simp: token_value_def)

lemma token_value_tl: "token_value fc (tl toks) k = token_value fc toks (Suc k)"
  using token_value_drop[of fc 1 toks k] by (simp add: drop_Suc)

lemma from_chars_int_conv:
  "from_chars_int t =
     (if leading_digits t \<noteq> [] \<and> in_int_range (leading_value t) then Some (leading_value t)
      else None)"
  by (simp add: from_chars_int_def leading_digits_def leading_value_def Let_def)

lemma token_value_int:
  "token_value from_chars_int toks k =
     (if k < length toks \<and> leading_digits (toks ! k) \<noteq> [] \<and> in_int_range (leading_value (toks ! k))
      then Some (leading_value (toks ! k)) else None)"
  by (simp add: token_value_def from_chars_int_conv)

lemma token_value_first:
  "token_value fc toks 0 = None \<longleftrightarrow> toks = [] \<or> fc (hd toks) = None"
  by (cases toks) (auto simp: token_value_def)

lemma store_Inr:
  "store arr i v = Inr arr' \<longleftrightarrow> 0 \<le> i \<and> i < int (length arr) \<and> arr' = arr[nat i := v]"
  by (auto simp: store_def)

lemma nth_store:
  "0 \<le> i \<Longrightarrow> j < length arr \<Longrightarrow> (arr[nat i := v]) ! j = (if int j = i then v else arr ! j)"
  by (auto simp: nth_list_update)

lemma consume_into_Inr:
  "consume_into fc arr i sv = Inr (arr', sv') \<Longrightarrow>
   tokens sv' = tl (tokens sv) \<and> length arr' = length arr \<and>
   (case token_value fc (tokens sv) 0 of
      None \<Rightarrow> arr' = arr
    | Some v \<Rightarrow> 0 \<le> i \<and> i < int (length arr) \<and> arr' = arr[nat i := v])"
  using consume_next_tokens[of fc sv]
  by (cases "consume_next fc sv")
     (auto simp: consume_into_def store_Inr split: option.splits sum.splits)

lemma consume_into_nth:
  assumes "consume_into fc arr i sv = Inr (arr', sv')" and "j < length arr"
  shows "arr' ! j = (if int j = i then written (token_value fc (tokens sv) 0) (arr ! j) else arr ! j)"
  using consume_into_Inr[OF assms(1)] assms(2)
  by (cases "token_value fc (tokens sv) 0") (auto simp: written_def nth_list_update)

lemma consume_into_skip:
  "token_value fc (tokens sv) 0 = None \<Longrightarrow>
   consume_into fc arr i sv = Inr (arr, snd (consume_next fc sv))"
  using consume_next_tokens[of fc sv]
  by (cases "consume_next fc sv") (auto simp: consume_into_def)

lemma consume_into_write:
  "token_value fc (tokens sv) 0 = Some v \<Longrightarrow> 0 \<le> i \<Longrightarrow> i < int (length arr) \<Longrightarrow>
   consume_into fc arr i sv = Inr (arr[nat i := v], snd (consume_next fc sv))"
  using consume_next_tokens[of fc sv]
  by (cases "consume_next fc sv") (auto simp: consume_into_def store_def)

lemma consume_row_spec:
  "consume_row fc k arr i0 sv = Inr (arr', sv') \<Longrightarrow>
   tokens sv' = drop k (tokens sv) \<and> length arr' = length arr \<and>
   (\<forall>j < length arr. (int j < i0 \<or> i0 + int k \<le> int j) \<longrightarrow> arr' ! j = arr ! j) \<and>
   (\<forall>j < length arr. \<forall>m < k. int j = i0 + int m \<longrightarrow>
        arr' ! j = written (token_value fc (tokens sv) m) (arr ! j))"
proof (induction k arbitrary: arr i0 sv)
  case 0
  then show ?case by simp
next
  case (Suc k)
  from Suc.prems obtain arr1 sv1 where
    ci: "consume_into fc arr i0 sv = Inr (arr1, sv1)" and
    cr: "consume_row fc k arr1 (i0 + 1) sv1 = Inr (arr', sv')"
    by (auto split: sum.splits)
  note a = consume_into_Inr[OF ci]
  note ih = Suc.IH[OF cr]
  from a have len1: "length arr1 = length arr" and tok1: "tokens sv1 = tl (tokens sv)" by simp_all
  have t: "tokens sv' = drop (Suc k) (tokens sv)"
    using ih tok1 by (simp add: drop_Suc)
  have l: "length arr' = length arr" using ih len1 by simp
  have out: "\<forall>j < length arr. (int j < i0 \<or> i0 + int (Suc k) \<le> int j) \<longrightarrow> arr' ! j = arr ! j"
  proof (intro allI impI)
    fix j assume j: "j < length arr" and o: "int j < i0 \<or> i0 + int (Suc k) \<le> int j"
    then have "arr' ! j = arr1 ! j" using ih len1 by auto
    also have "\<dots> = arr ! j" using consume_into_nth[OF ci j] o by auto
    finally show "arr' ! j = arr ! j" .
  qed
  have inn: "\<forall>j < length arr. \<forall>m < Suc k. int j = i0 + int m \<longrightarrow>
        arr' ! j = written (token_value fc (tokens sv) m) (arr ! j)"
  proof (intro allI impI)
    fix j m assume j: "j < length arr" and m: "m < Suc k" and e: "int j = i0 + int m"
    show "arr' ! j = written (token_value fc (tokens sv) m) (arr ! j)"
    proof (cases m)
      case 0
      then have "arr' ! j = arr1 ! j" using ih len1 j e by auto
      also have "\<dots> = written (token_value fc (tokens sv) 0) (arr ! j)"
        using consume_into_nth[OF ci j] e 0 by simp
      finally show ?thesis using 0 by simp
    next
      case (Suc m')
      then have "arr' ! j = written (token_value fc (tokens sv1) m') (arr1 ! j)"
        using ih len1 j e m by auto
      moreover have "arr1 ! j = arr ! j" using consume_into_nth[OF ci j] e Suc by simp
      ultimately show ?thesis using Suc tok1 by (simp add: token_value_tl)
    qed
  qed
  from t l out inn show ?case by blast
qed

lemma consume_row_ok:
  "0 \<le> i0 \<Longrightarrow> i0 + int k \<le> int (length arr) \<Longrightarrow>
   \<exists>arr' sv'. consume_row fc k arr i0 sv = Inr (arr', sv')"
proof (induction k arbitrary: arr i0 sv)
  case 0
  then show ?case by simp
next
  case (Suc k)
  obtain r sv1 where cn: "consume_next fc sv = (r, sv1)" by (cases "consume_next fc sv")
  have "\<exists>arr1. consume_into fc arr i0 sv = Inr (arr1, sv1) \<and> length arr1 = length arr"
    using Suc.prems cn by (cases r) (auto simp: consume_into_def store_def)
  then obtain arr1 where ci: "consume_into fc arr i0 sv = Inr (arr1, sv1)"
    and len: "length arr1 = length arr" by blast
  have "\<exists>arr' sv'. consume_row fc k arr1 (i0 + 1) sv1 = Inr (arr', sv')"
    using Suc.prems len by (intro Suc.IH) auto
  then show ?case using ci by simp
qed

lemma consume_row_error: "consume_row fc k arr i0 sv = Inl e \<Longrightarrow> e = OutOfBounds"
  by (induction k arbitrary: arr i0 sv)
     (auto simp: consume_into_def store_def split: sum.splits prod.splits option.splits if_splits)

section \<open>The extractors\<close>

lemma read_particles_frame:
  "read_particles fcd k s sv = Inr (s', sv') \<Longrightarrow>
   \<exists>ip fp. s' = s\<lparr>iptc_arr := ip, fptc_arr := fp, cur_particle := cur_particle s + int k\<rparr>"
proof (induction k arbitrary: s sv)
  case 0
  then show ?case
    by (auto intro!: exI[of _ "iptc_arr s"] exI[of _ "fptc_arr s"])
next
  case (Suc k)
  from Suc.prems obtain ip fp sv2 where
    rec: "read_particles fcd k (s\<lparr>iptc_arr := ip, fptc_arr := fp, cur_particle := cur_particle s + 1\<rparr>) sv2 = Inr (s', sv')"
    by (auto split: sum.splits prod.splits)
  from Suc.IH[OF rec] show ?case by (auto simp: add.assoc)
qed

lemma read_particles_spec:
  "read_particles fcd k s sv = Inr (s', sv') \<Longrightarrow>
   tokens sv' = drop (13 * k) (tokens sv) \<and>
   length (iptc_arr s') = length (iptc_arr s) \<and> length (fptc_arr s') = length (fptc_arr s) \<and>
   (0 < k \<longrightarrow> 0 \<le> cur_particle s \<and>
      (cur_particle s + int k - 1) * 7 < int (length (iptc_arr s))) \<and>
   (\<forall>j < length (iptc_arr s).
      (int j < cur_particle s * 7 \<or> (cur_particle s + int k) * 7 \<le> int j) \<longrightarrow>
      iptc_arr s' ! j = iptc_arr s ! j) \<and>
   (\<forall>j < length (fptc_arr s).
      (int j < cur_particle s * 7 \<or> (cur_particle s + int k) * 7 \<le> int j) \<longrightarrow>
      fptc_arr s' ! j = fptc_arr s ! j) \<and>
   (\<forall>j < length (iptc_arr s). \<forall>p < k. int j = (cur_particle s + int p) * 7 \<longrightarrow>
      iptc_arr s' ! j = cur_event s) \<and>
   (\<forall>j < length (iptc_arr s). \<forall>p < k. \<forall>i < 6. int j = (cur_particle s + int p) * 7 + 1 + int i \<longrightarrow>
      iptc_arr s' ! j = written (token_value from_chars_int (tokens sv) (13 * p + i)) (iptc_arr s ! j)) \<and>
   (\<forall>j < length (fptc_arr s). \<forall>p < k. \<forall>i < 7. int j = (cur_particle s + int p) * 7 + int i \<longrightarrow>
      fptc_arr s' ! j = written (token_value fcd (tokens sv) (13 * p + 6 + i)) (fptc_arr s ! j))"
proof (induction k arbitrary: s sv)
  case 0
  then show ?case by simp
next
  case (Suc k)
  let ?cp = "cur_particle s"
  from Suc.prems obtain ip0 ip sv1 fp sv2 where
    st: "store (iptc_arr s) (?cp * 7) (cur_event s) = Inr ip0" and
    r6: "consume_row from_chars_int 6 ip0 (?cp * 7 + 1) sv = Inr (ip, sv1)" and
    r7: "consume_row fcd 7 (fptc_arr s) (?cp * 7) sv1 = Inr (fp, sv2)" and
    rec: "read_particles fcd k (s\<lparr>iptc_arr := ip, fptc_arr := fp, cur_particle := ?cp + 1\<rparr>) sv2
            = Inr (s', sv')"
    by (auto split: sum.splits)
  let ?s1 = "s\<lparr>iptc_arr := ip, fptc_arr := fp, cur_particle := ?cp + 1\<rparr>"
  from st have cp0: "0 \<le> ?cp * 7" and cpl: "?cp * 7 < int (length (iptc_arr s))"
    and ip0: "ip0 = (iptc_arr s)[nat (?cp * 7) := cur_event s]"
    by (simp_all add: store_Inr)
  note s6 = consume_row_spec[OF r6]
  note s7 = consume_row_spec[OF r7]
  note ih = Suc.IH[OF rec]
  have len0: "length ip0 = length (iptc_arr s)" using ip0 by simp
  have lenip: "length ip = length (iptc_arr s)" using s6 len0 by simp
  have lenfp: "length fp = length (fptc_arr s)" using s7 by simp
  have tok2: "tokens sv2 = drop 13 (tokens sv)" using s6 s7 by simp
  have ip_out: "ip ! j = iptc_arr s ! j"
    if "j < length (iptc_arr s)" "int j < ?cp * 7 \<or> (?cp + 1) * 7 \<le> int j" for j
  proof -
    have "ip ! j = ip0 ! j" using s6 that len0 by auto
    also have "\<dots> = iptc_arr s ! j" using that ip0 cp0 by (auto simp: nth_store)
    finally show ?thesis .
  qed
  have ip_own: "ip ! j = cur_event s" if "j < length (iptc_arr s)" "int j = ?cp * 7" for j
  proof -
    have "ip ! j = ip0 ! j" using s6 that len0 by auto
    also have "\<dots> = cur_event s" using that ip0 cp0 by (auto simp: nth_store)
    finally show ?thesis .
  qed
  have ip_in: "ip ! j = written (token_value from_chars_int (tokens sv) i) (iptc_arr s ! j)"
    if "j < length (iptc_arr s)" "i < 6" "int j = ?cp * 7 + 1 + int i" for j i
  proof -
    have "ip ! j = written (token_value from_chars_int (tokens sv) i) (ip0 ! j)"
      using s6 that len0 by auto
    moreover have "ip0 ! j = iptc_arr s ! j" using that ip0 cp0 by (auto simp: nth_store)
    ultimately show ?thesis by simp
  qed
  have fp_out: "fp ! j = fptc_arr s ! j"
    if "j < length (fptc_arr s)" "int j < ?cp * 7 \<or> (?cp + 1) * 7 \<le> int j" for j
    using s7 that by auto
  have fp_in: "fp ! j = written (token_value fcd (tokens sv) (6 + i)) (fptc_arr s ! j)"
    if "j < length (fptc_arr s)" "i < 7" "int j = ?cp * 7 + int i" for j i
  proof -
    have "fp ! j = written (token_value fcd (tokens sv1) i) (fptc_arr s ! j)"
      using s7 that by auto
    moreover have "tokens sv1 = drop 6 (tokens sv)" using s6 by simp
    ultimately show ?thesis by (simp add: token_value_drop)
  qed
  have c1: "tokens sv' = drop (13 * Suc k) (tokens sv)"
    using ih tok2 by (simp add: add.commute)
  have c2: "length (iptc_arr s') = length (iptc_arr s)" using ih lenip by simp
  have c3: "length (fptc_arr s') = length (fptc_arr s)" using ih lenfp by simp
  have c4: "0 \<le> ?cp \<and> (?cp + int (Suc k) - 1) * 7 < int (length (iptc_arr s))"
  proof (cases k)
    case 0
    then show ?thesis using cp0 cpl by simp
  next
    case (Suc k')
    then show ?thesis using ih cp0 lenip by (simp add: algebra_simps)
  qed
  have c5: "\<forall>j < length (iptc_arr s).
      (int j < ?cp * 7 \<or> (?cp + int (Suc k)) * 7 \<le> int j) \<longrightarrow> iptc_arr s' ! j = iptc_arr s ! j"
  proof (intro allI impI)
    fix j assume j: "j < length (iptc_arr s)"
      and o: "int j < ?cp * 7 \<or> (?cp + int (Suc k)) * 7 \<le> int j"
    have "iptc_arr s' ! j = ip ! j" using ih j o lenip by (auto simp: algebra_simps)
    also have "\<dots> = iptc_arr s ! j" using ip_out[OF j] o by (auto simp: algebra_simps)
    finally show "iptc_arr s' ! j = iptc_arr s ! j" .
  qed
  have c6: "\<forall>j < length (fptc_arr s).
      (int j < ?cp * 7 \<or> (?cp + int (Suc k)) * 7 \<le> int j) \<longrightarrow> fptc_arr s' ! j = fptc_arr s ! j"
  proof (intro allI impI)
    fix j assume j: "j < length (fptc_arr s)"
      and o: "int j < ?cp * 7 \<or> (?cp + int (Suc k)) * 7 \<le> int j"
    have "fptc_arr s' ! j = fp ! j" using ih j o lenfp by (auto simp: algebra_simps)
    also have "\<dots> = fptc_arr s ! j" using fp_out[OF j] o by (auto simp: algebra_simps)
    finally show "fptc_arr s' ! j = fptc_arr s ! j" .
  qed
  have c7: "\<forall>j < length (iptc_arr s). \<forall>p < Suc k. int j = (?cp + int p) * 7 \<longrightarrow>
      iptc_arr s' ! j = cur_event s"
  proof (intro allI impI)
    fix j p assume j: "j < length (iptc_arr s)" and p: "p < Suc k"
      and e: "int j = (?cp + int p) * 7"
    show "iptc_arr s' ! j = cur_event s"
    proof (cases p)
      case 0
      have "iptc_arr s' ! j = ip ! j" using ih j e 0 lenip by (auto simp: algebra_simps)
      then show ?thesis using ip_own[OF j] e 0 by simp
    next
      case (Suc p')
      have "int j = (cur_particle ?s1 + int p') * 7" using e Suc by (simp add: algebra_simps)
      moreover have "p' < k" using p Suc by simp
      ultimately show ?thesis using ih j lenip by auto
    qed
  qed
  have c8: "\<forall>j < length (iptc_arr s). \<forall>p < Suc k. \<forall>i < 6. int j = (?cp + int p) * 7 + 1 + int i \<longrightarrow>
      iptc_arr s' ! j = written (token_value from_chars_int (tokens sv) (13 * p + i)) (iptc_arr s ! j)"
  proof (intro allI impI)
    fix j p i assume j: "j < length (iptc_arr s)" and p: "p < Suc k" and i: "i < 6"
      and e: "int j = (?cp + int p) * 7 + 1 + int i"
    show "iptc_arr s' ! j = written (token_value from_chars_int (tokens sv) (13 * p + i)) (iptc_arr s ! j)"
    proof (cases p)
      case 0
      have "iptc_arr s' ! j = ip ! j" using ih j e i 0 lenip by (auto simp: algebra_simps)
      then show ?thesis using ip_in[OF j i] e 0 by simp
    next
      case (Suc p')
      have e': "int j = (cur_particle ?s1 + int p') * 7 + 1 + int i"
        using e Suc by (simp add: algebra_simps)
      have p': "p' < k" using p Suc by simp
      have "iptc_arr s' ! j = written (token_value from_chars_int (tokens sv2) (13 * p' + i)) (ip ! j)"
        using ih j lenip e' p' i by auto
      moreover have "ip ! j = iptc_arr s ! j" using ip_out[OF j] e Suc by (auto simp: algebra_simps)
      ultimately show ?thesis using tok2 Suc by (simp add: token_value_drop algebra_simps)
    qed
  qed
  have c9: "\<forall>j < length (fptc_arr s). \<forall>p < Suc k. \<forall>i < 7. int j = (?cp + int p) * 7 + int i \<longrightarrow>
      fptc_arr s' ! j = written (token_value fcd (tokens sv) (13 * p + 6 + i)) (fptc_arr s ! j)"
  proof (intro allI impI)
    fix j p i assume j: "j < length (fptc_arr s)" and p: "p < Suc k" and i: "i < 7"
      and e: "int j = (?cp + int p) * 7 + int i"
    show "fptc_arr s' ! j = written (token_value fcd (tokens sv) (13 * p + 6 + i)) (fptc_arr s ! j)"
    proof (cases p)
      case 0
      have "fptc_arr s' ! j = fp ! j" using ih j e i 0 lenfp by (auto simp: algebra_simps)
      then show ?thesis using fp_in[OF j i] e 0 by simp
    next
      case (Suc p')
      have e': "int j = (cur_particle ?s1 + int p') * 7 + int i"
        using e Suc by (simp add: algebra_simps)
      have p': "p' < k" using p Suc by simp
      have "fptc_arr s' ! j = written (token_value fcd (tokens sv2) (13 * p' + 6 + i)) (fp ! j)"
        using ih j lenfp e' p' i by auto
      moreover have "fp ! j = fptc_arr s ! j" using fp_out[OF j] e Suc by (auto simp: algebra_simps)
      ultimately show ?thesis using tok2 Suc by (simp add: token_value_drop algebra_simps)
    qed
  qed
  from c1 c2 c3 c4 c5 c6 c7 c8 c9 show ?case by blast
qed

lemma read_particles_ok:
  "0 \<le> cur_particle s \<Longrightarrow> (cur_particle s + int k) * 7 \<le> int (length (iptc_arr s)) \<Longrightarrow>
   (cur_particle s + int k) * 7 \<le> int (length (fptc_arr s)) \<Longrightarrow>
   \<exists>s' sv'. read_particles fcd k s sv = Inr (s', sv')"
proof (induction k arbitrary: s sv)
  case 0
  then show ?case by simp
next
  case (Suc k)
  let ?cp = "cur_particle s"
  obtain ip0 where st: "store (iptc_arr s) (?cp * 7) (cur_event s) = Inr ip0"
    and len0: "length ip0 = length (iptc_arr s)"
    using Suc.prems by (auto simp: store_def)
  obtain ip sv1 where r6: "consume_row from_chars_int 6 ip0 (?cp * 7 + 1) sv = Inr (ip, sv1)"
    using consume_row_ok[of "?cp * 7 + 1" 6 ip0 from_chars_int sv] Suc.prems len0 by auto
  obtain fp sv2 where r7: "consume_row fcd 7 (fptc_arr s) (?cp * 7) sv1 = Inr (fp, sv2)"
    using consume_row_ok[of "?cp * 7" 7 "fptc_arr s" fcd sv1] Suc.prems by auto
  have lenip: "length ip = length (iptc_arr s)" using consume_row_spec[OF r6] len0 by simp
  have lenfp: "length fp = length (fptc_arr s)" using consume_row_spec[OF r7] by simp
  let ?s1 = "s\<lparr>iptc_arr := ip, fptc_arr := fp, cur_particle := ?cp + 1\<rparr>"
  have "\<exists>s' sv'. read_particles fcd k ?s1 sv2 = Inr (s', sv')"
    using Suc.prems lenip lenfp by (intro Suc.IH) (auto simp: algebra_simps)
  then show ?case using st r6 r7 by simp
qed

lemma read_particles_error: "read_particles fcd k s sv = Inl e \<Longrightarrow> e = OutOfBounds"
proof (induction k arbitrary: s sv)
  case 0
  then show ?case by simp
next
  case (Suc k)
  then show ?case
    by (auto simp: store_def dest: consume_row_error split: sum.splits prod.splits if_splits)
qed

lemma processEvent_frame:
  "processEvent fcd s = Inr s' \<Longrightarrow>
   \<exists>ie fe ip fp n. fst (consume_next from_chars_int (charBuf s)) = Some n \<and>
      s' = s\<lparr>ievt_arr := ie, fevt_arr := fe, iptc_arr := ip, fptc_arr := fp,
             cur_particle := cur_particle s + int (nat n)\<rparr>"
proof -
  assume a: "processEvent fcd s = Inr s'"
  then obtain n sv ie fe sv2 sv3 where n: "consume_next from_chars_int (charBuf s) = (Some n, sv)"
    and rp: "read_particles fcd (nat n) (s\<lparr>ievt_arr := ie, fevt_arr := fe\<rparr>) sv2 = Inr (s', sv3)"
    by (auto simp: processEvent_def split: sum.splits prod.splits option.splits)
  from read_particles_frame[OF rp] obtain ip fp where
    "s' = s\<lparr>ievt_arr := ie, fevt_arr := fe, iptc_arr := ip, fptc_arr := fp,
            cur_particle := cur_particle s + int (nat n)\<rparr>" by auto
  with n show ?thesis
    by (intro exI[of _ ie] exI[of _ fe] exI[of _ ip] exI[of _ fp] exI[of _ n]) simp
qed

text \<open>
  What a successful run of the event extractor does, slot by slot, in terms of the tokens
  of the buffer.
\<close>

lemma processEvent_spec:
  assumes pe: "processEvent fcd s = Inr s'"
  shows "\<exists>n. token_value from_chars_int (tokens (charBuf s)) 0 = Some n \<and>
     s' = s\<lparr>ievt_arr := ievt_arr s', fevt_arr := fevt_arr s', iptc_arr := iptc_arr s',
            fptc_arr := fptc_arr s', cur_particle := cur_particle s + int (nat n)\<rparr> \<and>
     length (ievt_arr s') = length (ievt_arr s) \<and> length (fevt_arr s') = length (fevt_arr s) \<and>
     length (iptc_arr s') = length (iptc_arr s) \<and> length (fptc_arr s') = length (fptc_arr s) \<and>
     0 \<le> cur_event s \<and> cur_event s * 2 < int (length (ievt_arr s)) \<and>
     ievt_arr s' ! nat (cur_event s * 2) = n \<and>
     (\<forall>j < length (ievt_arr s). int j = cur_event s * 2 + 1 \<longrightarrow>
        ievt_arr s' ! j = written (token_value from_chars_int (tokens (charBuf s)) 1) (ievt_arr s ! j)) \<and>
     (\<forall>j < length (ievt_arr s). int j \<noteq> cur_event s * 2 \<and> int j \<noteq> cur_event s * 2 + 1 \<longrightarrow>
        ievt_arr s' ! j = ievt_arr s ! j) \<and>
     (\<forall>j < length (fevt_arr s). \<forall>i < 4. int j = cur_event s * (4 + n_weights s) + int i \<longrightarrow>
        fevt_arr s' ! j = written (token_value fcd (tokens (charBuf s)) (2 + i)) (fevt_arr s ! j)) \<and>
     (\<forall>j < length (fevt_arr s).
        (int j < cur_event s * (4 + n_weights s) \<or> cur_event s * (4 + n_weights s) + 4 \<le> int j) \<longrightarrow>
        fevt_arr s' ! j = fevt_arr s ! j) \<and>
     (0 < n \<longrightarrow> 0 \<le> cur_particle s \<and> (cur_particle s + n - 1) * 7 < int (length (iptc_arr s))) \<and>
     (\<forall>j < length (iptc_arr s).
        (int j < cur_particle s * 7 \<or> (cur_particle s + int (nat n)) * 7 \<le> int j) \<longrightarrow>
        iptc_arr s' ! j = iptc_arr s ! j) \<and>
     (\<forall>j < length (fptc_arr s).
        (int j < cur_particle s * 7 \<or> (cur_particle s + int (nat n)) * 7 \<le> int j) \<longrightarrow>
        fptc_arr s' ! j = fptc_arr s ! j) \<and>
     (\<forall>j < length (iptc_arr s). \<forall>p < nat n. int j = (cur_particle s + int p) * 7 \<longrightarrow>
        iptc_arr s' ! j = cur_event s) \<and>
     (\<forall>j < length (iptc_arr s). \<forall>p < nat n. \<forall>i < 6.
        int j = (cur_particle s + int p) * 7 + 1 + int i \<longrightarrow>
        iptc_arr s' ! j =
          written (token_value from_chars_int (tokens (charBuf s)) (6 + 13 * p + i)) (iptc_arr s ! j)) \<and>
     (\<forall>j < length (fptc_arr s). \<forall>p < nat n. \<forall>i < 7.
        int j = (cur_particle s + int p) * 7 + int i \<longrightarrow>
        fptc_arr s' ! j =
          written (token_value fcd (tokens (charBuf s)) (12 + 13 * p + i)) (fptc_arr s ! j))"
proof -
  let ?toks = "tokens (charBuf s)"
  let ?e = "cur_event s"
  from pe obtain n sv ie0 ie sv1 fe sv2 sv3 where
    cn: "consume_next from_chars_int (charBuf s) = (Some n, sv)" and
    st: "store (ievt_arr s) (?e * 2) n = Inr ie0" and
    ci: "consume_into from_chars_int ie0 (?e * 2 + 1) sv = Inr (ie, sv1)" and
    r4: "consume_row fcd 4 (fevt_arr s) (?e * (4 + n_weights s)) sv1 = Inr (fe, sv2)" and
    rp: "read_particles fcd (nat n) (s\<lparr>ievt_arr := ie, fevt_arr := fe\<rparr>) sv2 = Inr (s', sv3)"
    by (auto simp: processEvent_def split: sum.splits prod.splits option.splits)
  let ?s0 = "s\<lparr>ievt_arr := ie, fevt_arr := fe\<rparr>"
  from consume_next_tokens[of from_chars_int "charBuf s"] cn
  have n: "token_value from_chars_int ?toks 0 = Some n" and tsv: "tokens sv = tl ?toks" by simp_all
  from st have e0: "0 \<le> ?e * 2" and el: "?e * 2 < int (length (ievt_arr s))"
    and ie0: "ie0 = (ievt_arr s)[nat (?e * 2) := n]" by (simp_all add: store_Inr)
  have len0: "length ie0 = length (ievt_arr s)" using ie0 by simp
  note a = consume_into_Inr[OF ci]
  have lenie: "length ie = length (ievt_arr s)" using a len0 by simp
  have tsv1: "tokens sv1 = drop 2 ?toks"
    using a tsv by (simp add: drop_Suc numeral_2_eq_2)
  note s4 = consume_row_spec[OF r4]
  have lenfe: "length fe = length (fevt_arr s)" using s4 by simp
  have tsv2: "tokens sv2 = drop 6 ?toks" using s4 tsv1 by simp
  note rs = read_particles_spec[OF rp]
  obtain ip fp where fr: "s' = ?s0\<lparr>iptc_arr := ip, fptc_arr := fp,
      cur_particle := cur_particle ?s0 + int (nat n)\<rparr>"
    using read_particles_frame[OF rp] by blast
  have f1: "s' = s\<lparr>ievt_arr := ievt_arr s', fevt_arr := fevt_arr s', iptc_arr := iptc_arr s',
            fptc_arr := fptc_arr s', cur_particle := cur_particle s + int (nat n)\<rparr>"
    by (subst (1 2 3 4 5) fr) simp
  have ie': "ievt_arr s' = ie" and fe': "fevt_arr s' = fe" by (simp_all add: fr)
  have ien: "ie ! j = (if int j = ?e * 2 then n
        else if int j = ?e * 2 + 1 then written (token_value from_chars_int ?toks 1) (ievt_arr s ! j)
        else ievt_arr s ! j)" if "j < length (ievt_arr s)" for j
  proof -
    have "ie ! j = (if int j = ?e * 2 + 1 then written (token_value from_chars_int (tokens sv) 0) (ie0 ! j)
        else ie0 ! j)"
      using consume_into_nth[OF ci] that len0 by simp
    moreover have "ie0 ! j = (if int j = ?e * 2 then n else ievt_arr s ! j)"
      using ie0 e0 that by (simp add: nth_store)
    ultimately show ?thesis using tsv by (auto simp: token_value_tl)
  qed
  have c_own: "ievt_arr s' ! nat (?e * 2) = n"
    using ien[of "nat (?e * 2)"] e0 el ie' by simp
  have c_id: "\<forall>j < length (ievt_arr s). int j = ?e * 2 + 1 \<longrightarrow>
        ievt_arr s' ! j = written (token_value from_chars_int ?toks 1) (ievt_arr s ! j)"
    using ien ie' by simp
  have c_ie_out: "\<forall>j < length (ievt_arr s). int j \<noteq> ?e * 2 \<and> int j \<noteq> ?e * 2 + 1 \<longrightarrow>
        ievt_arr s' ! j = ievt_arr s ! j"
    using ien ie' by simp
  have c_fe: "\<forall>j < length (fevt_arr s). \<forall>i < 4. int j = ?e * (4 + n_weights s) + int i \<longrightarrow>
        fevt_arr s' ! j = written (token_value fcd ?toks (2 + i)) (fevt_arr s ! j)"
    using s4 fe' tsv1 by (simp add: token_value_drop)
  have c_fe_out: "\<forall>j < length (fevt_arr s).
        (int j < ?e * (4 + n_weights s) \<or> ?e * (4 + n_weights s) + 4 \<le> int j) \<longrightarrow>
        fevt_arr s' ! j = fevt_arr s ! j"
    using s4 fe' by simp
  have c_b: "0 < n \<longrightarrow> 0 \<le> cur_particle s \<and> (cur_particle s + n - 1) * 7 < int (length (iptc_arr s))"
    using rs by auto
  have c_ip_out: "\<forall>j < length (iptc_arr s).
        (int j < cur_particle s * 7 \<or> (cur_particle s + int (nat n)) * 7 \<le> int j) \<longrightarrow>
        iptc_arr s' ! j = iptc_arr s ! j"
    using rs by simp
  have c_fp_out: "\<forall>j < length (fptc_arr s).
        (int j < cur_particle s * 7 \<or> (cur_particle s + int (nat n)) * 7 \<le> int j) \<longrightarrow>
        fptc_arr s' ! j = fptc_arr s ! j"
    using rs by simp
  have c_ip_own: "\<forall>j < length (iptc_arr s). \<forall>p < nat n. int j = (cur_particle s + int p) * 7 \<longrightarrow>
        iptc_arr s' ! j = cur_event s"
    using rs by simp
  have c_ip: "\<forall>j < length (iptc_arr s). \<forall>p < nat n. \<forall>i < 6.
        int j = (cur_particle s + int p) * 7 + 1 + int i \<longrightarrow>
        iptc_arr s' ! j =
          written (token_value from_chars_int ?toks (6 + 13 * p + i)) (iptc_arr s ! j)"
    using rs tsv2 by (simp add: token_value_drop add.assoc)
  have c_fp: "\<forall>j < length (fptc_arr s). \<forall>p < nat n. \<forall>i < 7.
        int j = (cur_particle s + int p) * 7 + int i \<longrightarrow>
        fptc_arr s' ! j =
          written (token_value fcd ?toks (12 + 13 * p + i)) (fptc_arr s ! j)"
    using rs tsv2 by (simp add: token_value_drop add.assoc)
  have lens: "length (ievt_arr s') = length (ievt_arr s) \<and> length (fevt_arr s') = length (fevt_arr s) \<and>
     length (iptc_arr s') = length (iptc_arr s) \<and> length (fptc_arr s') = length (fptc_arr s)"
    using rs lenie lenfe ie' fe' by simp
  have e0': "0 \<le> ?e" using e0 by simp
  show ?thesis
    apply (rule exI[of _ n])
    using n f1 lens e0' el c_own c_id c_ie_out c_fe c_fe_out c_b c_ip_out c_fp_out c_ip_own c_ip c_fp
    by blast
qed

lemma processEvent_ok:
  assumes n: "token_value from_chars_int (tokens (charBuf s)) 0 = Some n" and r: "room s n"
  shows "\<exists>s'. processEvent fcd s = Inr s'"
proof -
  obtain sv where cn: "consume_next from_chars_int (charBuf s) = (Some n, sv)"
    using n consume_next_tokens[of from_chars_int "charBuf s"]
    by (cases "consume_next from_chars_int (charBuf s)") simp
  obtain ie0 where st: "store (ievt_arr s) (cur_event s * 2) n = Inr ie0"
    and len0: "length ie0 = length (ievt_arr s)"
    using r by (auto simp: store_def room_def)
  obtain ie sv1 where c1: "consume_row from_chars_int 1 ie0 (cur_event s * 2 + 1) sv = Inr (ie, sv1)"
    using consume_row_ok[of "cur_event s * 2 + 1" 1 ie0 from_chars_int sv] r len0
    by (auto simp: room_def)
  then have ci: "consume_into from_chars_int ie0 (cur_event s * 2 + 1) sv = Inr (ie, sv1)"
    by (auto simp: numeral_eq_Suc split: sum.splits)
  obtain fe sv2 where r4: "consume_row fcd 4 (fevt_arr s) (cur_event s * (4 + n_weights s)) sv1 = Inr (fe, sv2)"
    using consume_row_ok[of "cur_event s * (4 + n_weights s)" 4 "fevt_arr s" fcd sv1] r
    by (auto simp: room_def)
  obtain s' sv3 where rp: "read_particles fcd (nat n) (s\<lparr>ievt_arr := ie, fevt_arr := fe\<rparr>) sv2 = Inr (s', sv3)"
    using read_particles_ok[of "s\<lparr>ievt_arr := ie, fevt_arr := fe\<rparr>" "nat n" fcd sv2] r
    by (auto simp: room_def)
  show ?thesis using cn st ci r4 rp by (simp add: processEvent_def)
qed

lemma processEvent_error:
  "processEvent fcd s = Inl e \<Longrightarrow>
   (e = TokenParseError (cur_event s) \<and> token_value from_chars_int (tokens (charBuf s)) 0 = None)
   \<or> (e = OutOfBounds \<and> token_value from_chars_int (tokens (charBuf s)) 0 \<noteq> None)"
  using consume_next_tokens[of from_chars_int "charBuf s"]
  by (cases "consume_next from_chars_int (charBuf s)")
     (auto simp: processEvent_def consume_into_def store_def
        dest: consume_row_error read_particles_error
        split: sum.splits prod.splits option.splits if_splits)

lemma processEvent_no_count:
  "token_value from_chars_int (tokens (charBuf s)) 0 = None \<Longrightarrow>
   processEvent fcd s = Inl (TokenParseError (cur_event s))"
  using consume_next_tokens[of from_chars_int "charBuf s"]
  by (cases "consume_next from_chars_int (charBuf s)") (auto simp: processEvent_def)

lemma processEvent_block:
  assumes pe: "processEvent fcd s = Inr s'" and cp: "0 \<le> cur_particle s"
  shows "\<exists>n. token_value from_chars_int (tokens (charBuf s)) 0 = Some n \<and>
     cur_particle s' = cur_particle s + int (nat n) \<and> cur_event s' = cur_event s \<and>
     length (iptc_arr s') = length (iptc_arr s) \<and>
     (\<forall>r. cur_particle s \<le> int r \<and> int r < cur_particle s' \<longrightarrow>
        7 * r < length (iptc_arr s) \<and> owner s' r = cur_event s) \<and>
     (\<forall>r. int r < cur_particle s \<and> 7 * r < length (iptc_arr s) \<longrightarrow> owner s' r = owner s r)"
proof -
  obtain n where
    n: "token_value from_chars_int (tokens (charBuf s)) 0 = Some n" and
    fr: "s' = s\<lparr>ievt_arr := ievt_arr s', fevt_arr := fevt_arr s', iptc_arr := iptc_arr s',
            fptc_arr := fptc_arr s', cur_particle := cur_particle s + int (nat n)\<rparr>" and
    len: "length (iptc_arr s') = length (iptc_arr s)" and
    b: "0 < n \<longrightarrow> 0 \<le> cur_particle s \<and> (cur_particle s + n - 1) * 7 < int (length (iptc_arr s))" and
    out: "\<forall>j < length (iptc_arr s).
        (int j < cur_particle s * 7 \<or> (cur_particle s + int (nat n)) * 7 \<le> int j) \<longrightarrow>
        iptc_arr s' ! j = iptc_arr s ! j" and
    own: "\<forall>j < length (iptc_arr s). \<forall>p < nat n. int j = (cur_particle s + int p) * 7 \<longrightarrow>
        iptc_arr s' ! j = cur_event s"
    using processEvent_spec[OF pe] by (elim exE conjE) (rule that, assumption+)
  have cp': "cur_particle s' = cur_particle s + int (nat n)" and ce': "cur_event s' = cur_event s"
    by (subst fr, simp)+
  have new: "\<forall>r. cur_particle s \<le> int r \<and> int r < cur_particle s' \<longrightarrow>
        7 * r < length (iptc_arr s) \<and> owner s' r = cur_event s"
  proof (intro allI impI)
    fix r assume r: "cur_particle s \<le> int r \<and> int r < cur_particle s'"
    with cp' have npos: "0 < n" by (cases "0 < n") auto
    with b have bb: "(cur_particle s + n - 1) * 7 < int (length (iptc_arr s))" by simp
    from r cp' npos have "int r \<le> cur_particle s + n - 1" by simp
    then have "int r * 7 \<le> (cur_particle s + n - 1) * 7" by simp
    with bb have l: "7 * r < length (iptc_arr s)" by linarith
    define p where "p = nat (int r - cur_particle s)"
    have p: "p < nat n" and e: "int (7 * r) = (cur_particle s + int p) * 7"
      using r cp' npos by (auto simp: p_def)
    from own l p e have "iptc_arr s' ! (7 * r) = cur_event s" by blast
    with l show "7 * r < length (iptc_arr s) \<and> owner s' r = cur_event s" by (simp add: owner_def)
  qed
  have old: "\<forall>r. int r < cur_particle s \<and> 7 * r < length (iptc_arr s) \<longrightarrow> owner s' r = owner s r"
  proof (intro allI impI)
    fix r assume r: "int r < cur_particle s \<and> 7 * r < length (iptc_arr s)"
    then have "int (7 * r) < cur_particle s * 7" by simp
    with out r show "owner s' r = owner s r" by (simp add: owner_def)
  qed
  show ?thesis
    by (rule exI[of _ n]) (rule conjI[OF n conjI[OF cp' conjI[OF ce' conjI[OF len conjI[OF new old]]]]])
qed

lemma processWeight_cases:
  "processWeight fcd s =
     (case fst (consume_next fcd (charBuf s)) of
        None \<Rightarrow> Inr (s\<lparr>cur_weight := cur_weight s + 1, charBuf := [], capture := NO_CAPTURE\<rparr>)
      | Some v \<Rightarrow>
          if 0 \<le> weight_slot s \<and> weight_slot s < int (length (fevt_arr s))
          then Inr (s\<lparr>fevt_arr := (fevt_arr s)[nat (weight_slot s) := v],
                      cur_weight := cur_weight s + 1, charBuf := [], capture := NO_CAPTURE\<rparr>)
          else Inl OutOfBounds)"
  by (cases "consume_next fcd (charBuf s)")
     (auto simp: processWeight_def consume_into_def store_def weight_slot_def split: option.splits)

lemma processWeight_frame:
  "processWeight fcd s = Inr s' \<Longrightarrow>
   \<exists>fe. s' = s\<lparr>fevt_arr := fe, cur_weight := cur_weight s + 1, charBuf := [], capture := NO_CAPTURE\<rparr>"
  by (auto simp: processWeight_def split: sum.splits prod.splits)

lemma processWeight_skip:
  "token_value fcd (tokens (charBuf s)) 0 = None \<Longrightarrow>
   processWeight fcd s =
     Inr (s\<lparr>cur_weight := cur_weight s + 1, charBuf := [], capture := NO_CAPTURE\<rparr>)"
  using consume_next_tokens[of fcd "charBuf s"] by (simp add: processWeight_cases)

section \<open>The callbacks\<close>

text \<open>
  Expat may deliver the character data between two tags in several callbacks; the cut
  points do not matter to pass 2.
\<close>

lemma run_chunks:
  "run fcd (CharacterData a # CharacterData b # evs) s = run fcd (CharacterData (a @ b) # evs) s"
  by (simp add: onChar_def)

lemma onStart_event:
  "onStart fcd ''event'' attributes s = Inr (s\<lparr>capture := EVENT_HEADER, cur_weight := 0\<rparr>)"
  by (simp add: onStart_def)

lemma dispatch_cur_weight:
  "dispatch fcd ev s = Inr s' \<Longrightarrow> \<not> is_event_start ev \<Longrightarrow>
   cur_weight s' = cur_weight s + (if is_wgt_end ev then 1 else 0)"
proof (cases ev)
  case (StartElement name attributes)
  assume a: "dispatch fcd ev s = Inr s'" and b: "\<not> is_event_start ev"
  from b StartElement have ne: "name \<noteq> ''event''" by (simp add: is_event_start_def)
  show ?thesis
  proof (cases "capture s = EVENT_HEADER")
    case True
    with a StartElement ne obtain s1 where p: "processEvent fcd s = Inr s1"
      and s': "s' = (if name = ''wgt'' then s1\<lparr>charBuf := [], capture := WGT_TAG\<rparr> else s1\<lparr>charBuf := [], capture := NO_CAPTURE\<rparr>)"
      by (auto simp: onStart_def split: sum.splits if_splits)
    from processEvent_frame[OF p] s' StartElement show ?thesis by (auto simp: is_wgt_end_def)
  next
    case False
    with a StartElement ne show ?thesis by (auto simp: onStart_def is_wgt_end_def split: if_splits)
  qed
next
  case (EndElement name)
  assume a: "dispatch fcd ev s = Inr s'"
  show ?thesis
  proof (cases "name = ''wgt''")
    case True
    with a EndElement have "processWeight fcd s = Inr s'" by (simp add: onEnd_def)
    from processWeight_frame[OF this] True EndElement show ?thesis by (auto simp: is_wgt_end_def)
  next
    case False
    with a EndElement show ?thesis by (auto simp: onEnd_def is_wgt_end_def split: if_splits)
  qed
next
  case (CharacterData buf)
  assume a: "dispatch fcd ev s = Inr s'"
  with CharacterData show ?thesis by (auto simp: onChar_def is_wgt_end_def)
qed

lemma run_cur_weight:
  "run fcd evs s = Inr s' \<Longrightarrow> \<forall>ev \<in> set evs. \<not> is_event_start ev \<Longrightarrow>
   cur_weight s' = cur_weight s + int (length (filter is_wgt_end evs))"
proof (induction evs arbitrary: s)
  case Nil
  then show ?case by simp
next
  case (Cons ev evs)
  from Cons.prems(1) obtain s1 where d: "dispatch fcd ev s = Inr s1" and r: "run fcd evs s1 = Inr s'"
    by (auto split: sum.splits)
  from Cons.prems(2) have ne: "\<not> is_event_start ev" and rest: "\<forall>ev \<in> set evs. \<not> is_event_start ev" by auto
  from Cons.IH[OF r rest] dispatch_cur_weight[OF d ne] show ?case by simp
qed

lemma owners_ordered_cong:
  "owners_ordered s \<Longrightarrow> iptc_arr s' = iptc_arr s \<Longrightarrow> cur_particle s' = cur_particle s \<Longrightarrow>
   cur_event s \<le> cur_event s' \<Longrightarrow> owners_ordered s'"
proof -
  assume o: "owners_ordered s" and i: "iptc_arr s' = iptc_arr s"
    and c: "cur_particle s' = cur_particle s" and e: "cur_event s \<le> cur_event s'"
  have ow: "owner s' r = owner s r" for r by (simp add: owner_def i)
  from o have 1: "0 \<le> cur_particle s"
    and 2: "\<And>r. int r < cur_particle s \<Longrightarrow> 7 * r < length (iptc_arr s) \<and> owner s r \<le> cur_event s"
    and 3: "\<And>r1 r2. r1 \<le> r2 \<Longrightarrow> int r2 < cur_particle s \<Longrightarrow> owner s r1 \<le> owner s r2"
    unfolding owners_ordered_def by blast+
  show "owners_ordered s'"
    unfolding owners_ordered_def ow c i
  proof (intro conjI allI impI)
    show "0 \<le> cur_particle s" by (rule 1)
  next
    fix r assume "int r < cur_particle s"
    then show "7 * r < length (iptc_arr s)" using 2 by blast
  next
    fix r assume "int r < cur_particle s"
    then have "owner s r \<le> cur_event s" using 2 by blast
    with e show "owner s r \<le> cur_event s'" by linarith
  next
    fix r1 r2 assume "r1 \<le> r2 \<and> int r2 < cur_particle s"
    then show "owner s r1 \<le> owner s r2" using 3 by blast
  qed
qed

lemma processEvent_ordered:
  assumes pe: "processEvent fcd s = Inr s'" and inv: "owners_ordered s"
  shows "owners_ordered s'"
proof -
  from inv have cp: "0 \<le> cur_particle s"
    and bd: "\<And>r. int r < cur_particle s \<Longrightarrow> 7 * r < length (iptc_arr s) \<and> owner s r \<le> cur_event s"
    and so: "\<And>r1 r2. r1 \<le> r2 \<Longrightarrow> int r2 < cur_particle s \<Longrightarrow> owner s r1 \<le> owner s r2"
    by (auto simp: owners_ordered_def)
  obtain n where cp': "cur_particle s' = cur_particle s + int (nat n)"
    and ce': "cur_event s' = cur_event s"
    and len: "length (iptc_arr s') = length (iptc_arr s)"
    and new: "\<forall>r. cur_particle s \<le> int r \<and> int r < cur_particle s' \<longrightarrow>
        7 * r < length (iptc_arr s) \<and> owner s' r = cur_event s"
    and old: "\<forall>r. int r < cur_particle s \<and> 7 * r < length (iptc_arr s) \<longrightarrow> owner s' r = owner s r"
    using processEvent_block[OF pe cp] by (elim exE conjE) (rule that, assumption+)
  have val: "7 * r < length (iptc_arr s') \<and>
      owner s' r = (if int r < cur_particle s then owner s r else cur_event s)"
    if "int r < cur_particle s'" for r
  proof (cases "int r < cur_particle s")
    case True
    with bd[of r] have l: "7 * r < length (iptc_arr s)" by simp
    with True old have "owner s' r = owner s r" by blast
    with True l len show ?thesis by simp
  next
    case False
    with that new have "7 * r < length (iptc_arr s) \<and> owner s' r = cur_event s" by simp
    with False len show ?thesis by simp
  qed
  have a: "0 \<le> cur_particle s'" using cp cp' by simp
  have b: "\<forall>r. int r < cur_particle s' \<longrightarrow> 7 * r < length (iptc_arr s') \<and> owner s' r \<le> cur_event s'"
  proof (intro allI impI)
    fix r assume r: "int r < cur_particle s'"
    show "7 * r < length (iptc_arr s') \<and> owner s' r \<le> cur_event s'"
      using val[OF r] bd[of r] ce' by (cases "int r < cur_particle s") simp_all
  qed
  have c: "\<forall>r1 r2. r1 \<le> r2 \<and> int r2 < cur_particle s' \<longrightarrow> owner s' r1 \<le> owner s' r2"
  proof (intro allI impI)
    fix r1 r2 assume h: "r1 \<le> r2 \<and> int r2 < cur_particle s'"
    then have h1: "int r1 < cur_particle s'" by simp
    from h have h2: "int r2 < cur_particle s'" by simp
    show "owner s' r1 \<le> owner s' r2"
    proof (cases "int r2 < cur_particle s")
      case True
      with h have "int r1 < cur_particle s" by simp
      with True val[OF h1] val[OF h2] so[of r1 r2] h show ?thesis by simp
    next
      case False
      note r2 = this
      show ?thesis
      proof (cases "int r1 < cur_particle s")
        case True
        with r2 val[OF h1] val[OF h2] bd[of r1] show ?thesis by simp
      next
        case False
        with r2 val[OF h1] val[OF h2] show ?thesis by simp
      qed
    qed
  qed
  show ?thesis unfolding owners_ordered_def by (rule conjI[OF a conjI[OF b c]])
qed

lemma dispatch_ordered:
  assumes d: "dispatch fcd ev s = Inr s'" and inv: "owners_ordered s"
  shows "owners_ordered s'"
proof (cases ev)
  case (StartElement name attributes)
  show ?thesis
  proof (cases "name \<noteq> ''event'' \<and> capture s = EVENT_HEADER")
    case True
    with d StartElement obtain s1 where p: "processEvent fcd s = Inr s1"
      and s': "s' = (if name = ''wgt'' then s1\<lparr>charBuf := [], capture := WGT_TAG\<rparr>
                     else s1\<lparr>charBuf := [], capture := NO_CAPTURE\<rparr>)"
      by (auto simp: onStart_def split: sum.splits if_splits)
    from processEvent_ordered[OF p inv] have "owners_ordered s1" .
    then show ?thesis by (rule owners_ordered_cong) (simp_all add: s')
  next
    case False
    with d StartElement have "iptc_arr s' = iptc_arr s \<and> cur_particle s' = cur_particle s \<and>
        cur_event s' = cur_event s"
      by (auto simp: onStart_def split: if_splits)
    with inv show ?thesis by (intro owners_ordered_cong[of s s']) simp_all
  qed
next
  case (EndElement name)
  show ?thesis
  proof (cases "name = ''wgt''")
    case True
    with d EndElement have "processWeight fcd s = Inr s'" by (simp add: onEnd_def split: if_splits)
    from processWeight_frame[OF this] inv show ?thesis
      by (intro owners_ordered_cong[of s s']) auto
  next
    case False
    with d EndElement have "iptc_arr s' = iptc_arr s \<and> cur_particle s' = cur_particle s \<and>
        cur_event s \<le> cur_event s'"
      by (auto simp: onEnd_def split: if_splits)
    with inv show ?thesis by (intro owners_ordered_cong[of s s']) simp_all
  qed
next
  case (CharacterData buf)
  with d have "iptc_arr s' = iptc_arr s \<and> cur_particle s' = cur_particle s \<and>
        cur_event s' = cur_event s"
    by (auto simp: onChar_def)
  with inv show ?thesis by (intro owners_ordered_cong[of s s']) simp_all
qed

lemma run_ordered:
  "run fcd evs s = Inr s' \<Longrightarrow> owners_ordered s \<Longrightarrow> owners_ordered s'"
proof (induction evs arbitrary: s)
  case Nil
  then show ?case by simp
next
  case (Cons ev evs)
  from Cons.prems(1) obtain s1 where d: "dispatch fcd ev s = Inr s1" and r: "run fcd evs s1 = Inr s'"
    by (auto split: sum.splits)
  from Cons.IH[OF r dispatch_ordered[OF d Cons.prems(2)]] show ?case .
qed

lemma init_ordered: "owners_ordered (init_state ne nw np)"
  by (simp add: owners_ordered_def init_state_def)

section \<open>The sample documents evaluated\<close>

lemma c1_dims: "countDimensions (Some c1_file) = Inr (1, 0, 2)"
  by (simp add: c1_file_def eval_defs)

lemma c1w_dims: "countDimensions (Some c1w_file) = Inr (1, 1, 2)"
  by (simp add: c1w_file_def eval_defs)

lemma c3_dims: "countDimensions (Some c3_file) = Inr (1, 1, 2)"
  by (simp add: c3_file_def eval_defs)

lemma c3_run:
  "run from_chars_decimal c3_events (init_state 1 1 2) =
   Inr \<lparr>fevt_arr = [0, 0, 0, 0, 0], ievt_arr = [0, 0],
        fptc_arr = [0, 0, 0, 0, 0, 0, 0, 0, 0, 0, 0, 0, 0, 0],
        iptc_arr = [0, 0, 0, 0, 0, 0, 0, 0, 0, 0, 0, 0, 0, 0],
        n_weights = 1, n_events = 1, n_particles = 2, cur_event = 1, cur_weight = 0,
        cur_particle = 0, capture = EVENT_HEADER,
        charBuf = NL # ''2 1 1.0 2.0 3.0 4.0'' @ NL #
          ''21 -1 0 0 501 502 0.0 0.0 1.0 1.0 0.0 0.0 1.0'' @ NL #
          ''21 -1 0 0 502 501 0.0 0.0 -1.0 1.0 0.0 0.0 -1.0'' @ [NL, NL]\<rparr>"
  by (simp add: c3_events_def eval_defs numeral_eq_Suc)

lemma c6_tok1: "tokens (charBuf (c6_state '' two 1 1.0'')) = [''two'', ''1'', ''1.0'']"
  by (simp add: c6_state_def tokens_def is_delim_def)

lemma c6_tok2: "tokens (charBuf (c6_state [NL, CHR '' ''])) = []"
  by (simp add: c6_state_def tokens_def is_delim_def)

lemma c6_tok3: "tokens (charBuf (c6_state ''2 x y'')) = [''2'', ''x'', ''y'']"
  by (simp add: c6_state_def tokens_def is_delim_def)

lemma c6_tok4: "tokens (charBuf (c6_state ''2147483648 1'')) = [''2147483648'', ''1'']"
  by (simp add: c6_state_def tokens_def is_delim_def)

lemma c6_tok5: "tokens (charBuf (c6_state ''2x 1'')) = [''2x'', ''1'']"
  by (simp add: c6_state_def tokens_def is_delim_def)

lemma c6_run: "processEvent from_chars_decimal (c6_state ''2x 1'') = Inr c6_after"
  by (simp add: c6_state_def c6_after_def eval_defs numeral_eq_Suc)

lemma c7_tokens: "tokens (charBuf c7_state) = [''1'', ''x'', ''1.0'', ''oops'', ''3.0'']"
  by (simp add: c7_state_def tokens_def is_delim_def)

lemma c7_dims: "countDimensions (Some c7_file) = Inr (2, 1, 2)"
  by (simp add: c7_file_def eval_defs)

lemma c7_doc: "run from_chars_decimal c7_events (init_state 2 1 2) = Inr c7_final"
  by (simp add: c7_events_def c7_final_def eval_defs numeral_eq_Suc)

lemma c7_run: "processEvent from_chars_decimal c7_state = Inr c7_after"
  by (simp add: c7_state_def c7_after_def eval_defs numeral_eq_Suc)

lemma c8_run: "run from_chars_decimal c8_events (init_state 2 1 3) = Inr c8_final"
  by (simp add: c8_events_def c8_final_def eval_defs numeral_eq_Suc)

lemma c8_step: "processEvent from_chars_decimal c8_start = Inr c8_after"
  by (simp add: c8_start_def c8_after_def eval_defs numeral_eq_Suc)

lemma c9_dims: "countDimensions (Some c9_file) = Inr (1, 1, 1)"
  by (simp add: c9_file_def eval_defs)

lemma c9_run:
  "run from_chars_decimal c9_events (init_state 1 1 1) =
     Inr \<lparr>fevt_arr = [1, 2, 3, 4, 1/2], ievt_arr = [1, 1],
          fptc_arr = [0, 0, 1, 1, 0, 0, 1], iptc_arr = [0, 21, - 1, 0, 0, 501, 502],
          n_weights = 1, n_events = 1, n_particles = 1, cur_event = 2, cur_weight = 0,
          cur_particle = 1, capture = EVENT_HEADER,
          charBuf = NL # ''0 1 1.0 2.0 3.0 4.0'' @ [NL, NL]\<rparr>"
  by (simp add: c9_events_def eval_defs numeral_eq_Suc)

lemma c10_run:
  "run from_chars_decimal (StartElement ''event'' [] # c10_events) (init_state 2 1 1) =
     Inr \<lparr>fevt_arr = [1, 2, 3, 4, 1/2, 1/4, 0, 0, 0, 0], ievt_arr = [0, 1, 0, 0],
          fptc_arr = [0, 0, 0, 0, 0, 0, 0], iptc_arr = [0, 0, 0, 0, 0, 0, 0],
          n_weights = 1, n_events = 2, n_particles = 1, cur_event = 0, cur_weight = 3,
          cur_particle = 0, capture = NO_CAPTURE, charBuf = []\<rparr>"
  by (simp add: c10_events_def eval_defs numeral_eq_Suc)

section \<open>C1: the concrete scenario\<close>

text \<open>
  C1, as stated, fails.  Pass 1 counts as \<^verbatim>\<open>n_weights\<close> the lines that contain
  \<^verbatim>\<open><weight \<close>, the weight declarations of the header, not the \<^verbatim>\<open><wgt\<close> elements of the
  events.  The document of the scenario has no such line, so the scan returns
  \<open>(1, 0, 2)\<close> and parseLHE throws "Found no events, weights, or particles."
\<close>

theorem C1_counterexample:
  "parseLHE (\<lambda>f. (c1_events, None)) from_chars_decimal (Some c1_file) = Inl EmptyInputError"
  by (simp add: parseLHE_def c1_dims)

text \<open>
  C1 amended: when the document also holds one line with a \<^verbatim>\<open><weight \<close> declaration,
  the parse of the event with header \<^verbatim>\<open>2 1 1.0 2.0 3.0 4.0\<close>, two particle lines and
  \<^verbatim>\<open><wgt id="w0">0.5</wgt>\<close> returns i\_evt = [[2,1]], f\_evt = [[1,2,3,4,0.5]], i\_ptc with
  two rows that both carry the owning index 0, and f\_ptc with two rows of seven reals.
  The hypotheses say what the two library components do on this document: expat makes the
  callbacks \<open>c1w_events\<close> and reports no error, and \<^verbatim>\<open>std::from_chars\<close> converts the seven
  decimal tokens that occur to the numbers they denote.
\<close>

theorem C1_declared_weight:
  fixes fcd :: "string \<Rightarrow> real option"
  assumes "xml c1w_file = (c1w_events, None)"
    and "fcd ''0.0'' = Some 0" and "fcd ''0.5'' = Some (1/2)" and "fcd ''1.0'' = Some 1"
    and "fcd ''-1.0'' = Some (- 1)" and "fcd ''2.0'' = Some 2" and "fcd ''3.0'' = Some 3"
    and "fcd ''4.0'' = Some 4"
  shows "map_sum id (\<lambda>(i_evt, f_evt, i_ptc, f_ptc). (rows i_evt, rows f_evt, rows i_ptc, rows f_ptc))
           (parseLHE xml fcd (Some c1w_file)) =
         Inr ([[2, 1]], [[1, 2, 3, 4, 1/2]],
              [[0, 21, - 1, 0, 0, 501, 502], [0, 21, - 1, 0, 0, 502, 501]],
              [[0, 0, 1, 1, 0, 0, 1], [0, 0, - 1, 1, 0, 0, - 1]])"
proof -
  have run: "run fcd c1w_events (init_state 1 1 2) =
    Inr \<lparr>fevt_arr = [1, 2, 3, 4, 1/2], ievt_arr = [2, 1],
         fptc_arr = [0, 0, 1, 1, 0, 0, 1, 0, 0, - 1, 1, 0, 0, - 1],
         iptc_arr = [0, 21, - 1, 0, 0, 501, 502, 0, 21, - 1, 0, 0, 502, 501],
         n_weights = 1, n_events = 1, n_particles = 2, cur_event = 1, cur_weight = 1,
         cur_particle = 2, capture = NO_CAPTURE, charBuf = []\<rparr>"
    using assms(2-) by (simp add: c1w_events_def c1_events_def eval_defs numeral_eq_Suc)
  show ?thesis
    using assms(1) by (simp add: parseLHE_def c1w_dims run rows_1_2 rows_1_5 rows_2_7)
qed

theorem C1_declared_weight_witness:
  "(\<lambda>f. (c1w_events, None)) c1w_file = (c1w_events, None)
   \<and> from_chars_decimal ''0.0'' = Some 0 \<and> from_chars_decimal ''0.5'' = Some (1/2)
   \<and> from_chars_decimal ''1.0'' = Some 1 \<and> from_chars_decimal ''-1.0'' = Some (- 1)
   \<and> from_chars_decimal ''2.0'' = Some 2 \<and> from_chars_decimal ''3.0'' = Some 3
   \<and> from_chars_decimal ''4.0'' = Some 4
   \<and> map_sum id (\<lambda>(i_evt, f_evt, i_ptc, f_ptc). (rows i_evt, rows f_evt, rows i_ptc, rows f_ptc))
           (parseLHE (\<lambda>f. (c1w_events, None)) from_chars_decimal (Some c1w_file)) =
         Inr ([[2, 1]], [[1, 2, 3, 4, 1/2]],
              [[0, 21, - 1, 0, 0, 501, 502], [0, 21, - 1, 0, 0, 502, 501]],
              [[0, 0, 1, 1, 0, 0, 1], [0, 0, - 1, 1, 0, 0, - 1]])"
proof -
  have h0: "(\<lambda>f. (c1w_events, None)) c1w_file = (c1w_events, None)" by simp
  have h1: "from_chars_decimal ''0.0'' = Some 0"
    by (simp add: from_chars_decimal_def is_digit_def digit_val_def)
  have h2: "from_chars_decimal ''0.5'' = Some (1/2)"
    by (simp add: from_chars_decimal_def is_digit_def digit_val_def)
  have h3: "from_chars_decimal ''1.0'' = Some 1"
    by (simp add: from_chars_decimal_def is_digit_def digit_val_def)
  have h4: "from_chars_decimal ''-1.0'' = Some (- 1)"
    by (simp add: from_chars_decimal_def is_digit_def digit_val_def)
  have h5: "from_chars_decimal ''2.0'' = Some 2"
    by (simp add: from_chars_decimal_def is_digit_def digit_val_def)
  have h6: "from_chars_decimal ''3.0'' = Some 3"
    by (simp add: from_chars_decimal_def is_digit_def digit_val_def)
  have h7: "from_chars_decimal ''4.0'' = Some 4"
    by (simp add: from_chars_decimal_def is_digit_def digit_val_def)
  from C1_declared_weight[OF h0 h1 h2 h3 h4 h5 h6 h7] h1 h2 h3 h4 h5 h6 h7 show ?thesis by simp
qed

section \<open>C2: the start of an event\<close>

text \<open>
  C2, as stated, fails in its middle part: the branch of onStart for the name
  \<^verbatim>\<open>event\<close> assigns \<^verbatim>\<open>capture\<close> and \<^verbatim>\<open>cur_weight\<close> and nothing else.  The buffer is cleared
  where it is consumed (after processEvent, in processWeight), not where an event starts.
  Here a first event without a child element leaves its text in the buffer, and the
  buffer still holds it after the second \<^verbatim>\<open><event>\<close> tag.
\<close>

theorem C2_counterexample:
  "map_sum id charBuf
     (run from_chars_decimal
        [StartElement ''LesHouchesEvents'' [], StartElement ''event'' [], CharacterData ''2 1'',
         EndElement ''event'', StartElement ''event'' []]
        (init_state 2 1 2)) = Inr ''2 1''"
  by (simp add: eval_defs)

text \<open>
  C2 amended: on every tag-begin event named \<^verbatim>\<open>event\<close>, whatever its attributes and the
  current state, the machine resets the per-event weight cursor to 0 and enters the
  header-capturing state, and changes nothing else: the accumulation buffer keeps its
  content.
\<close>

theorem C2_event_start:
  "onStart fcd ''event'' attributes s = Inr (s\<lparr>capture := EVENT_HEADER, cur_weight := 0\<rparr>)
   \<and> map_sum id cur_weight (onStart fcd ''event'' attributes s) = Inr 0
   \<and> map_sum id capture (onStart fcd ''event'' attributes s) = Inr EVENT_HEADER
   \<and> map_sum id charBuf (onStart fcd ''event'' attributes s) = Inr (charBuf s)"
  by (simp add: onStart_event)

section \<open>C3: rows and particle counts\<close>

text \<open>
  C3: on every input on which the parse succeeds, column 0 of i\_evt should sum to
  \<open>n_particles\<close>, the row count of i\_ptc and f\_ptc.  The code does not keep this.  The
  event extractor is called from onStart only, at the first start tag after the header;
  onEnd for \<^verbatim>\<open>event\<close> advances the event cursor and nothing else.  An event of the form the
  header comment of the source gives (header line, particle lines, closing tag, no child
  element) is therefore never extracted.  On \<open>c3_file\<close> the scan counts one event and two
  particles, the parse succeeds, and row 0 of i\_evt is still \<open>[0, 0]\<close>: column 0 sums to
  0, while i\_ptc and f\_ptc have two rows.
\<close>

theorem C3_childless_event:
  "countDimensions (Some c3_file) = Inr (1, 1, 2)
   \<and> map_sum id (\<lambda>(i_evt, f_evt, i_ptc, f_ptc). (rows i_evt, column0_sum i_evt, nrows i_ptc, nrows f_ptc))
       (parseLHE (\<lambda>f. (c3_events, None)) from_chars_decimal (Some c3_file)) = Inr ([[0, 0]], 0, 2, 2)"
  by (simp add: c3_dims parseLHE_def c3_run rows_1_2 column0_sum_def)

section \<open>C4: empty dimensions\<close>

text \<open>
  C4: when the scan of pass 1 returns zero events, zero weight occurrences or zero
  particles, parseLHE fails with the empty-input error.  The result does not depend on the
  tokenizer or on the reader of doubles: the check comes before the arrays are built and
  before pass 2 starts, and no array is returned.  It also comes before the array
  constructor could refuse a negative particle total, as on \<open>c4_file\<close>.
\<close>

theorem C4_empty_dimensions:
  "countDimensions file = Inr (ne, nw, np) \<Longrightarrow> ne = 0 \<or> nw = 0 \<or> np = 0 \<Longrightarrow>
   parseLHE xml fcd file = Inl EmptyInputError"
  by (auto simp: parseLHE_def)

theorem C4_empty_dimensions_witness:
  "countDimensions (Some empty_file) = Inr (0, 0, 0)
   \<and> parseLHE (\<lambda>f. (empty_events, None)) from_chars_decimal (Some empty_file) = Inl EmptyInputError
   \<and> countDimensions (Some c4_file) = Inr (1, 0, - 1)
   \<and> parseLHE (\<lambda>f. (c4_events, None)) from_chars_decimal (Some c4_file) = Inl EmptyInputError"
proof -
  have h: "countDimensions (Some empty_file) = Inr (0, 0, 0)"
    by (simp add: empty_file_def eval_defs)
  have z: "(0::int) = 0 \<or> (0::int) = 0 \<or> (0::int) = 0" by simp
  have A: "parseLHE (\<lambda>f. (empty_events, None)) from_chars_decimal (Some empty_file) = Inl EmptyInputError"
    by (rule C4_empty_dimensions[OF h z])
  have h': "countDimensions (Some c4_file) = Inr (1, 0, - 1)"
    by (simp add: c4_file_def eval_defs)
  have z': "(1::int) = 0 \<or> (0::int) = 0 \<or> (- 1::int) = 0" by simp
  have B: "parseLHE (\<lambda>f. (c4_events, None)) from_chars_decimal (Some c4_file) = Inl EmptyInputError"
    by (rule C4_empty_dimensions[OF h' z'])
  show ?thesis by (rule conjI[OF h conjI[OF A conjI[OF h' B]]])
qed

section \<open>C5: failures of the scan\<close>

text \<open>
  C5: countDimensions fails when the file cannot be opened.  Whenever its loop stands at a
  line with the event-open marker and the next line does not start with an integer (after
  white space), it fails with the error that carries the number of that next line, which is
  two more than the lines read before.  For a whole file: when the lines before the marker
  scan without failure, the error carries the position of the header line in the file,
  counted from one.  In each case the result is the error, no dimensions.
\<close>

theorem C5_scan_errors:
  "countDimensions None = Inl FileOpenError
   \<and> (found ''<event>'' line \<and> istream_int header = None \<longrightarrow>
        scan_lines nl (line # header # rest) ne nw np lnum = Inl (DimensionScanError (lnum + 2)))
   \<and> (getlines content = pre @ line # header # post \<and> scan_lines True pre 0 0 0 0 = Inr dims \<and>
        found ''<event>'' line \<and> istream_int header = None \<longrightarrow>
        countDimensions (Some content) = Inl (DimensionScanError (int (length pre) + 2)))"
proof -
  have b: "found ''<event>'' line \<and> istream_int header = None \<longrightarrow>
        scan_lines nl (line # header # rest) ne nw np lnum = Inl (DimensionScanError (lnum + 2))"
    by simp
  have c: "getlines content = pre @ line # header # post \<and> scan_lines True pre 0 0 0 0 = Inr dims \<and>
        found ''<event>'' line \<and> istream_int header = None \<longrightarrow>
        countDimensions (Some content) = Inl (DimensionScanError (int (length pre) + 2))"
  proof
    assume h: "getlines content = pre @ line # header # post \<and> scan_lines True pre 0 0 0 0 = Inr dims \<and>
        found ''<event>'' line \<and> istream_int header = None"
    obtain a b c where dims: "dims = (a, b, c)" by (cases dims)
    from h have pre: "scan_lines True pre 0 0 0 0 = Inr dims" by simp
    have "scan_lines (newline_ended content) (pre @ line # header # post) 0 0 0 0 =
          scan_lines (newline_ended content) (line # header # post) a b c (int (length pre))"
      using scan_lines_append[OF pre] dims by simp
    also have "\<dots> = Inl (DimensionScanError (int (length pre) + 2))"
      using h scan_lines_bad_header by simp
    finally show "countDimensions (Some content) = Inl (DimensionScanError (int (length pre) + 2))"
      using h by (simp add: countDimensions_def)
  qed
  have a: "countDimensions None = Inl FileOpenError" by (simp add: countDimensions_def)
  show ?thesis by (rule conjI[OF a conjI[OF b c]])
qed

theorem C5_scan_errors_witness:
  "countDimensions (Some c5_file) = Inl (DimensionScanError 3)
   \<and> scan_lines True [''<event>'', ''two 1 1.0 2.0 3.0 4.0'', ''</event>''] 4 1 6 10 =
       Inl (DimensionScanError 12)"
proof -
  have g: "getlines c5_file = [''<LesHouchesEvents>''] @ ''<event>'' # ''two 1 1.0 2.0 3.0 4.0'' #
      [''</event>'', ''</LesHouchesEvents>'']"
    by (simp add: c5_file_def unlines_def getlines_def)
  have p: "scan_lines True [''<LesHouchesEvents>''] 0 0 0 0 = Inr (0, 0, 0)"
    by (simp add: count_weight_def)
  have f: "found ''<event>'' ''<event>''" by simp
  have i: "istream_int ''two 1 1.0 2.0 3.0 4.0'' = None"
    by (simp add: istream_int_def is_space_def is_digit_def)
  from C5_scan_errors[where line = "''<event>''" and header = "''two 1 1.0 2.0 3.0 4.0''"
      and content = c5_file and pre = "[''<LesHouchesEvents>'']"
      and post = "[''</event>'', ''</LesHouchesEvents>'']" and dims = "(0, 0, 0)",
      THEN conjunct2, THEN conjunct2] g p f i
  have A: "countDimensions (Some c5_file) = Inl (DimensionScanError 3)" by simp
  from C5_scan_errors[where line = "''<event>''" and header = "''two 1 1.0 2.0 3.0 4.0''"
      and nl = True and rest = "[''</event>'']" and ne = 4 and nw = 1 and np = 6 and lnum = 10,
      THEN conjunct2, THEN conjunct1] f i
  have B: "scan_lines True [''<event>'', ''two 1 1.0 2.0 3.0 4.0'', ''</event>''] 4 1 6 10 =
       Inl (DimensionScanError 12)" by simp
  show ?thesis by (rule conjI[OF A B])
qed

section \<open>C6: the mandatory particle count\<close>

text \<open>
  C6, as stated, fails in both directions.  consume\_next hands the first token to
  \<^verbatim>\<open>std::from_chars\<close> and looks at the error code only.  The numeric token
  \<^verbatim>\<open>2147483648\<close> does not fit an \<^verbatim>\<open>int\<close>, and the numeric token \<^verbatim>\<open>+2\<close>, which pass 1
  reads as 2, starts with a sign that \<^verbatim>\<open>from_chars\<close> does not take: on both the extractor
  throws.  The token \<^verbatim>\<open>2x\<close> is not numeric, but its leading digit converts and what
  follows is not looked at: the extractor returns, with 2 as the particle count.
\<close>

theorem C6_counterexample:
  "spec_numeric ''2147483648''
   \<and> processEvent from_chars_decimal (c6_state ''2147483648 1'') = Inl (TokenParseError 2)
   \<and> spec_numeric ''+2'' \<and> istream_int ''+2 1'' = Some 2
   \<and> processEvent from_chars_decimal (c6_state ''+2 1'') = Inl (TokenParseError 2)
   \<and> \<not> spec_numeric ''2x''
   \<and> processEvent from_chars_decimal (c6_state ''2x 1'') = Inr c6_after"
proof -
  have a: "spec_numeric ''2147483648''" by (simp add: spec_numeric_def is_digit_def)
  have b: "processEvent from_chars_decimal (c6_state ''2147483648 1'') = Inl (TokenParseError 2)"
    by (simp add: c6_state_def eval_defs)
  have c: "spec_numeric ''+2''" by (simp add: spec_numeric_def is_digit_def)
  have d: "istream_int ''+2 1'' = Some 2"
    by (simp add: istream_int_def is_space_def is_digit_def digit_val_def in_int_range_def
        INT_MIN_def INT_MAX_def)
  have e: "processEvent from_chars_decimal (c6_state ''+2 1'') = Inl (TokenParseError 2)"
    by (simp add: c6_state_def eval_defs)
  have f: "\<not> spec_numeric ''2x''" by (simp add: spec_numeric_def is_digit_def)
  show ?thesis
    by (rule conjI[OF a conjI[OF b conjI[OF c conjI[OF d conjI[OF e conjI[OF f c6_run]]]]]])
qed

text \<open>
  C6 amended: the event extractor fails with the token error that carries the current
  event index if and only if the first token of the buffer is absent (the buffer holds white
  space only), or has no decimal digit right after an optional minus sign (a plus sign
  counts as no digit), or the number made of its leading digits lies outside the range of
  \<^verbatim>\<open>int\<close>.  Characters after the leading digits are ignored: when the extractor returns,
  the stored particle count is that leading number.  No other field makes it throw: the one
  other way for it not to return is a write outside a buffer, and with room for the event in
  the four buffers it returns, whatever the other tokens are.
\<close>

theorem C6_count_conversion:
  "(processEvent fcd s = Inl (TokenParseError e) \<longleftrightarrow>
      e = cur_event s \<and>
      (tokens (charBuf s) = [] \<or> leading_digits (hd (tokens (charBuf s))) = [] \<or>
       \<not> in_int_range (leading_value (hd (tokens (charBuf s))))))
   \<and> (processEvent fcd s = Inr s' \<longrightarrow>
        ievt_arr s' ! nat (cur_event s * 2) = leading_value (hd (tokens (charBuf s))))
   \<and> (processEvent fcd s = Inl err \<longrightarrow> err = TokenParseError (cur_event s) \<or> err = OutOfBounds)
   \<and> (tokens (charBuf s) \<noteq> [] \<and> leading_digits (hd (tokens (charBuf s))) \<noteq> [] \<and>
        in_int_range (leading_value (hd (tokens (charBuf s)))) \<and>
        room s (leading_value (hd (tokens (charBuf s)))) \<longrightarrow>
        \<not> isl (processEvent fcd s))"
  (is "?A \<and> (?P \<longrightarrow> ?B) \<and> ?C \<and> ?D")
proof -
  let ?t = "hd (tokens (charBuf s))"
  have first: "token_value from_chars_int (tokens (charBuf s)) 0 =
      (if tokens (charBuf s) \<noteq> [] \<and> leading_digits ?t \<noteq> [] \<and> in_int_range (leading_value ?t)
       then Some (leading_value ?t) else None)"
    by (cases "tokens (charBuf s)") (simp_all add: token_value_int)
  have a: ?A
    using processEvent_error[of fcd s "TokenParseError e"] processEvent_no_count[of s fcd] first
    by (auto split: if_splits)
  have b: "?P \<longrightarrow> ?B"
  proof
    assume pe: ?P
    obtain n where n: "token_value from_chars_int (tokens (charBuf s)) 0 = Some n"
      and own: "ievt_arr s' ! nat (cur_event s * 2) = n"
      using processEvent_spec[OF pe] by (elim exE conjE) (rule that, assumption+)
    from n first have "n = leading_value ?t" by (simp split: if_splits)
    with own show ?B by simp
  qed
  have c: ?C using processEvent_error[of fcd s err] by blast
  have d: ?D using processEvent_ok[of s "leading_value ?t" fcd] first by auto
  show ?thesis by (rule conjI[OF a conjI[OF b conjI[OF c d]]])
qed

theorem C6_count_conversion_witness:
  "processEvent from_chars_decimal (c6_state '' two 1 1.0'') = Inl (TokenParseError 2)
   \<and> processEvent from_chars_decimal (c6_state [NL, CHR '' '']) = Inl (TokenParseError 2)
   \<and> processEvent from_chars_decimal (c6_state ''2147483648 1'') = Inl (TokenParseError 2)
   \<and> \<not> isl (processEvent from_chars_decimal (c6_state ''2 x y''))
   \<and> ievt_arr c6_after ! 4 = 2
   \<and> (TokenParseError 2 = TokenParseError (cur_event (c6_state '' two 1 1.0'')) \<or>
        TokenParseError 2 = OutOfBounds)"
proof -
  have e: "cur_event (c6_state buf) = 2" for buf by (simp add: c6_state_def)
  have l1: "leading_digits ''two'' = []" by (simp add: leading_digits_def is_digit_def)
  have l3: "\<not> in_int_range (leading_value ''2147483648'')"
    by (simp add: leading_value_def leading_digits_def is_digit_def digit_val_def
        in_int_range_def INT_MIN_def INT_MAX_def)
  have l4: "leading_digits ''2'' \<noteq> [] \<and> leading_value ''2'' = 2"
    by (simp add: leading_value_def leading_digits_def is_digit_def digit_val_def)
  have l5: "leading_value ''2x'' = 2"
    by (simp add: leading_value_def leading_digits_def is_digit_def digit_val_def)
  have r: "room (c6_state ''2 x y'') 2"
    by (simp add: room_def c6_state_def init_state_def zeros_def)
  have A: "processEvent from_chars_decimal (c6_state '' two 1 1.0'') = Inl (TokenParseError 2)"
    using C6_count_conversion[where fcd = from_chars_decimal and s = "c6_state '' two 1 1.0''"
        and e = 2, THEN conjunct1] e l1 by (simp add: c6_tok1)
  have B: "processEvent from_chars_decimal (c6_state [NL, CHR '' '']) = Inl (TokenParseError 2)"
    using C6_count_conversion[where fcd = from_chars_decimal and s = "c6_state [NL, CHR '' '']"
        and e = 2, THEN conjunct1] e by (simp add: c6_tok2)
  have C: "processEvent from_chars_decimal (c6_state ''2147483648 1'') = Inl (TokenParseError 2)"
    using C6_count_conversion[where fcd = from_chars_decimal and s = "c6_state ''2147483648 1''"
        and e = 2, THEN conjunct1] e l3 by (simp add: c6_tok4)
  have D: "\<not> isl (processEvent from_chars_decimal (c6_state ''2 x y''))"
    using C6_count_conversion[where fcd = from_chars_decimal and s = "c6_state ''2 x y''",
        THEN conjunct2, THEN conjunct2, THEN conjunct2] l4 r
    by (simp add: c6_tok3 in_int_range_def INT_MIN_def INT_MAX_def)
  have E: "ievt_arr c6_after ! 4 = 2"
    using C6_count_conversion[where fcd = from_chars_decimal and s = "c6_state ''2x 1''"
        and s' = c6_after, THEN conjunct2, THEN conjunct1] c6_run l5 e
    by (simp add: c6_tok5)
  have F: "TokenParseError 2 = TokenParseError (cur_event (c6_state '' two 1 1.0'')) \<or>
        TokenParseError 2 = OutOfBounds"
    using C6_count_conversion[where fcd = from_chars_decimal and s = "c6_state '' two 1 1.0''"
        and err = "TokenParseError 2", THEN conjunct2, THEN conjunct2, THEN conjunct1] A by simp
  show ?thesis by (rule conjI[OF A conjI[OF B conjI[OF C conjI[OF D conjI[OF E F]]]]])
qed

section \<open>C7: best-effort fields\<close>

text \<open>
  C7, as stated, fails: a token that is malformed or missing raises no error, but the slot
  need not hold zero afterwards.  In event 0 of \<open>c7_file\<close> the token where IDPRUP is read is
  \<^verbatim>\<open>5.9\<close>, which is no integer; \<^verbatim>\<open>std::from_chars\<close> converts its leading digit, the rest of
  the token is skipped, and the slot holds 5.  In event 1 the token where XWGTUP is read is
  \<^verbatim>\<open>oops\<close>, which does not convert; the slot keeps what it held, and that is 0.25, stored
  there by the second \<^verbatim>\<open>wgt\<close> element of event 0.
\<close>

theorem C7_counterexample:
  "countDimensions (Some c7_file) = Inr (2, 1, 2)
   \<and> map_sum id (\<lambda>(i_evt, f_evt, i_ptc, f_ptc). (rows i_evt, rows f_evt))
       (parseLHE (\<lambda>f. (c7_events, None)) from_chars_decimal (Some c7_file)) =
     Inr ([[1, 5], [1, 1]], [[1, 2, 3, 4, 1/2], [1/4, 2, 3, 4, 1/2]])
   \<and> \<not> spec_numeric ''5.9''
   \<and> from_chars_decimal ''oops'' = None"
proof -
  have a: "map_sum id (\<lambda>(i_evt, f_evt, i_ptc, f_ptc). (rows i_evt, rows f_evt))
       (parseLHE (\<lambda>f. (c7_events, None)) from_chars_decimal (Some c7_file)) =
     Inr ([[1, 5], [1, 1]], [[1, 2, 3, 4, 1/2], [1/4, 2, 3, 4, 1/2]])"
    by (simp add: c7_dims parseLHE_def c7_doc c7_final_def rows_2_2 rows_2_5)
  have b: "\<not> spec_numeric ''5.9''" by (simp add: spec_numeric_def is_digit_def)
  have c: "from_chars_decimal ''oops'' = None" by (simp add: from_chars_decimal_def is_digit_def)
  show ?thesis by (rule conjI[OF c7_dims conjI[OF a conjI[OF b c]]])
qed

text \<open>
  C7 amended: for every field other than NUP a token that is missing or that
  \<^verbatim>\<open>std::from_chars\<close> rejects raises no error and writes nothing: the slot keeps the value it
  held before the read, which is the zero of the allocation where nothing was stored in it
  before.  This holds for one read (consume\_next into a slot, whatever the index), for the
  weight extractor, and in the event extractor for IDPRUP (token 1), the four event reals
  (tokens 2 to 5), the six integers of particle \<open>p\<close> (tokens \<open>6 + 13 p\<close> onwards) and its
  seven reals (tokens \<open>12 + 13 p\<close> onwards).  The event extractor throws for NUP alone and
  returns whenever the buffers have room.  A token that converts is stored, when the slot
  lies in the buffer.  An integer token is rejected exactly when it has no decimal digit
  right after an optional minus sign or when the number made of its leading digits lies
  outside the range of \<^verbatim>\<open>int\<close>; otherwise it converts to that number, whatever follows the
  digits.  All slots of the freshly allocated buffers hold zero.
\<close>

theorem C7_slot_kept:
  "(token_value fc (tokens sv) 0 = None \<longrightarrow>
      consume_into fc arr i sv = Inr (arr, snd (consume_next fc sv)))
   \<and> (token_value fcd (tokens (charBuf s)) 0 = None \<longrightarrow>
      processWeight fcd s =
        Inr (s\<lparr>cur_weight := cur_weight s + 1, charBuf := [], capture := NO_CAPTURE\<rparr>))
   \<and> (processEvent fcd s = Inr s' \<longrightarrow>
       (\<forall>j < length (ievt_arr s). int j = cur_event s * 2 + 1 \<and>
            token_value from_chars_int (tokens (charBuf s)) 1 = None \<longrightarrow>
            ievt_arr s' ! j = ievt_arr s ! j)
     \<and> (\<forall>j < length (fevt_arr s). \<forall>k < 4. int j = cur_event s * (4 + n_weights s) + int k \<and>
            token_value fcd (tokens (charBuf s)) (2 + k) = None \<longrightarrow>
            fevt_arr s' ! j = fevt_arr s ! j)
     \<and> (\<forall>n. token_value from_chars_int (tokens (charBuf s)) 0 = Some n \<longrightarrow>
         (\<forall>j < length (iptc_arr s). \<forall>p < nat n. \<forall>k < 6.
            int j = (cur_particle s + int p) * 7 + 1 + int k \<and>
            token_value from_chars_int (tokens (charBuf s)) (6 + 13 * p + k) = None \<longrightarrow>
            iptc_arr s' ! j = iptc_arr s ! j)
       \<and> (\<forall>j < length (fptc_arr s). \<forall>p < nat n. \<forall>k < 7.
            int j = (cur_particle s + int p) * 7 + int k \<and>
            token_value fcd (tokens (charBuf s)) (12 + 13 * p + k) = None \<longrightarrow>
            fptc_arr s' ! j = fptc_arr s ! j)))
   \<and> (processEvent fcd s = Inl err \<longrightarrow>
        (err = TokenParseError (cur_event s) \<and>
         token_value from_chars_int (tokens (charBuf s)) 0 = None) \<or> err = OutOfBounds)
   \<and> (token_value from_chars_int (tokens (charBuf s)) 0 = Some m \<and> room s m \<longrightarrow>
        \<not> isl (processEvent fcd s))
   \<and> (token_value fc (tokens sv) 0 = Some v \<and> 0 \<le> i \<and> i < int (length arr) \<longrightarrow>
        consume_into fc arr i sv = Inr (arr[nat i := v], snd (consume_next fc sv)))
   \<and> (token_value from_chars_int toks k = None \<longleftrightarrow>
        length toks \<le> k \<or> leading_digits (toks ! k) = [] \<or>
        \<not> in_int_range (leading_value (toks ! k)))
   \<and> (token_value from_chars_int toks k = Some w \<longrightarrow> w = leading_value (toks ! k))
   \<and> (\<forall>j < length (ievt_arr (init_state ne nw np :: 'd::zero ParseState)).
        ievt_arr (init_state ne nw np :: 'd ParseState) ! j = 0)
   \<and> (\<forall>j < length (fevt_arr (init_state ne nw np :: 'd ParseState)).
        fevt_arr (init_state ne nw np :: 'd ParseState) ! j = 0)
   \<and> (\<forall>j < length (iptc_arr (init_state ne nw np :: 'd ParseState)).
        iptc_arr (init_state ne nw np :: 'd ParseState) ! j = 0)
   \<and> (\<forall>j < length (fptc_arr (init_state ne nw np :: 'd ParseState)).
        fptc_arr (init_state ne nw np :: 'd ParseState) ! j = 0)"
  (is "?A \<and> ?B \<and> (?P \<longrightarrow> ?C1 \<and> ?C2 \<and> (\<forall>n. ?N n \<longrightarrow> ?C3 n \<and> ?C4 n)) \<and> ?D \<and> ?E \<and> ?F \<and> ?G \<and> ?H \<and> ?Z")
proof -
  have a: ?A using consume_into_skip[of fc sv arr i] by blast
  have b: ?B using processWeight_skip[of fcd s] by blast
  have c: "?P \<longrightarrow> ?C1 \<and> ?C2 \<and> (\<forall>n. ?N n \<longrightarrow> ?C3 n \<and> ?C4 n)"
  proof
    assume pe: ?P
    obtain n where
      n: "token_value from_chars_int (tokens (charBuf s)) 0 = Some n" and
      c_id: "\<forall>j < length (ievt_arr s). int j = cur_event s * 2 + 1 \<longrightarrow>
        ievt_arr s' ! j = written (token_value from_chars_int (tokens (charBuf s)) 1) (ievt_arr s ! j)" and
      c_fe: "\<forall>j < length (fevt_arr s). \<forall>i < 4. int j = cur_event s * (4 + n_weights s) + int i \<longrightarrow>
        fevt_arr s' ! j = written (token_value fcd (tokens (charBuf s)) (2 + i)) (fevt_arr s ! j)" and
      c_ip: "\<forall>j < length (iptc_arr s). \<forall>p < nat n. \<forall>i < 6.
        int j = (cur_particle s + int p) * 7 + 1 + int i \<longrightarrow>
        iptc_arr s' ! j =
          written (token_value from_chars_int (tokens (charBuf s)) (6 + 13 * p + i)) (iptc_arr s ! j)" and
      c_fp: "\<forall>j < length (fptc_arr s). \<forall>p < nat n. \<forall>i < 7.
        int j = (cur_particle s + int p) * 7 + int i \<longrightarrow>
        fptc_arr s' ! j =
          written (token_value fcd (tokens (charBuf s)) (12 + 13 * p + i)) (fptc_arr s ! j)"
      using processEvent_spec[OF pe] by (elim exE conjE) (rule that, assumption+)
    have 1: ?C1 using c_id by (simp add: written_def)
    have 2: ?C2 using c_fe by (simp add: written_def)
    have 3: "?C3 n" using c_ip by (simp add: written_def)
    have 4: "?C4 n" using c_fp by (simp add: written_def)
    have 34: "\<forall>n. ?N n \<longrightarrow> ?C3 n \<and> ?C4 n"
    proof (intro allI impI)
      fix n' assume "?N n'"
      with n have eq: "n' = n" by simp
      show "?C3 n' \<and> ?C4 n'" unfolding eq by (rule conjI[OF 3 4])
    qed
    show "?C1 \<and> ?C2 \<and> (\<forall>n. ?N n \<longrightarrow> ?C3 n \<and> ?C4 n)" by (rule conjI[OF 1 conjI[OF 2 34]])
  qed
  have d: ?D using processEvent_error[of fcd s err] by blast
  have e: ?E using processEvent_ok[of s m fcd] by auto
  have f: ?F using consume_into_write[of fc sv v i arr] by blast
  have g: ?G by (auto simp: token_value_int)
  have h: ?H by (simp add: token_value_int split: if_splits)
  have z: ?Z by (simp add: init_state_def zeros_nth)
  show ?thesis
    by (rule conjI[OF a conjI[OF b conjI[OF c conjI[OF d conjI[OF e conjI[OF f conjI[OF g
          conjI[OF h z]]]]]]]])
qed

theorem C7_slot_kept_witness:
  "processEvent from_chars_decimal c7_state = Inr c7_after
   \<and> ievt_arr c7_after ! 1 = 0 \<and> fevt_arr c7_after ! 1 = 0 \<and> fevt_arr c7_after ! 3 = 0
   \<and> iptc_arr c7_after ! 1 = 0 \<and> fptc_arr c7_after ! 6 = 0
   \<and> processWeight from_chars_decimal c7_weight =
       Inr (c7_weight\<lparr>cur_weight := 1, charBuf := [], capture := NO_CAPTURE\<rparr>)
   \<and> consume_into from_chars_int [7, 8] 5 ''x 2'' = Inr ([7, 8], '' 2'')
   \<and> \<not> isl (processEvent from_chars_decimal c7_state)
   \<and> processEvent from_chars_decimal (c7_state\<lparr>ievt_arr := []\<rparr>) = Inl OutOfBounds
   \<and> consume_into from_chars_int [0, 0] 1 ''5.9 7'' = Inr ([0, 5], '' 7'')
   \<and> token_value from_chars_int [''1'', ''+2''] 1 = None
   \<and> leading_value ''-2x'' = - 2"
proof -
  note t = C7_slot_kept[where fcd = from_chars_decimal and s = c7_state and s' = c7_after
      and ne = 1 and nw = 1 and np = 1]
  note ev = t[THEN conjunct2, THEN conjunct2, THEN conjunct1, rule_format, OF c7_run]
  have z: "ievt_arr c7_state = [0, 0] \<and> fevt_arr c7_state = [0, 0, 0, 0, 0]
      \<and> iptc_arr c7_state = [0, 0, 0, 0, 0, 0, 0] \<and> fptc_arr c7_state = [0, 0, 0, 0, 0, 0, 0]
      \<and> cur_event c7_state = 0 \<and> cur_particle c7_state = 0 \<and> n_weights c7_state = 1"
    by (simp add: c7_state_def init_state_def zeros_def numeral_eq_Suc)
  have n: "token_value from_chars_int (tokens (charBuf c7_state)) 0 = Some 1"
    by (simp add: c7_tokens token_value_def from_chars_int_def is_digit_def digit_val_def
        in_int_range_def INT_MIN_def INT_MAX_def)
  have t1: "token_value from_chars_int (tokens (charBuf c7_state)) 1 = None"
    by (simp add: c7_tokens token_value_def from_chars_int_def is_digit_def)
  have t3: "token_value from_chars_decimal (tokens (charBuf c7_state)) (2 + 1) = None"
    by (simp add: c7_tokens token_value_def from_chars_decimal_def is_digit_def)
  have t5: "token_value from_chars_decimal (tokens (charBuf c7_state)) (2 + 3) = None"
    by (simp add: c7_tokens token_value_def)
  have t6: "token_value from_chars_int (tokens (charBuf c7_state)) (6 + 13 * 0 + 0) = None"
    by (simp add: c7_tokens token_value_def)
  have t18: "token_value from_chars_decimal (tokens (charBuf c7_state)) (12 + 13 * 0 + 6) = None"
    by (simp add: c7_tokens token_value_def)
  have a: "ievt_arr c7_after ! 1 = ievt_arr c7_state ! 1"
    using ev[THEN conjunct1, rule_format, of 1] t1 z by simp
  have b1: "fevt_arr c7_after ! 1 = fevt_arr c7_state ! 1"
    using ev[THEN conjunct2, THEN conjunct1, rule_format, of 1 1] t3 z by simp
  have b3: "fevt_arr c7_after ! 3 = fevt_arr c7_state ! 3"
    using ev[THEN conjunct2, THEN conjunct1, rule_format, of 3 3] t5 z by simp
  have c: "iptc_arr c7_after ! 1 = iptc_arr c7_state ! 1"
    using ev[THEN conjunct2, THEN conjunct2, rule_format, OF n, THEN conjunct1, rule_format, of 1 0 0]
      t6 z by simp
  have d: "fptc_arr c7_after ! 6 = fptc_arr c7_state ! 6"
    using ev[THEN conjunct2, THEN conjunct2, rule_format, OF n, THEN conjunct2, rule_format, of 6 0 6]
      t18 z by simp
  have w0: "token_value from_chars_decimal (tokens (charBuf c7_weight)) 0 = None"
    by (simp add: c7_weight_def tokens_def is_delim_def token_value_def from_chars_decimal_def is_digit_def)
  have w: "processWeight from_chars_decimal c7_weight =
       Inr (c7_weight\<lparr>cur_weight := cur_weight c7_weight + 1, charBuf := [], capture := NO_CAPTURE\<rparr>)"
    using C7_slot_kept[where fcd = from_chars_decimal and s = c7_weight,
        THEN conjunct2, THEN conjunct1] w0 by simp
  have s0: "token_value from_chars_int (tokens ''x 2'') 0 = None"
    by (simp add: tokens_def is_delim_def token_value_def from_chars_int_def is_digit_def)
  have sl: "consume_into from_chars_int [7, 8] 5 ''x 2'' =
      Inr ([7, 8], snd (consume_next from_chars_int ''x 2''))"
    using C7_slot_kept[where fc = from_chars_int and sv = "''x 2''" and arr = "[7, 8]" and i = 5,
        THEN conjunct1] s0 by simp
  have cw: "cur_weight c7_weight = 0" by (simp add: c7_weight_def init_state_def)
  have cn: "snd (consume_next from_chars_int ''x 2'') = '' 2''"
    by (simp add: consume_next_def is_delim_def)
  have rm: "room c7_state 1"
    by (simp add: room_def c7_state_def init_state_def zeros_def)
  have ok: "\<not> isl (processEvent from_chars_decimal c7_state)"
    using t[where m = 1, THEN conjunct2, THEN conjunct2, THEN conjunct2, THEN conjunct2,
        THEN conjunct1] n rm by simp
  have ob: "processEvent from_chars_decimal (c7_state\<lparr>ievt_arr := []\<rparr>) = Inl OutOfBounds"
    by (simp add: c7_state_def eval_defs)
  have n': "token_value from_chars_int (tokens (charBuf (c7_state\<lparr>ievt_arr := []\<rparr>))) 0 = Some 1"
    using n by simp
  have er: "(OutOfBounds = TokenParseError (cur_event (c7_state\<lparr>ievt_arr := []\<rparr>)) \<and>
         token_value from_chars_int (tokens (charBuf (c7_state\<lparr>ievt_arr := []\<rparr>))) 0 = None)
        \<or> OutOfBounds = OutOfBounds"
    using C7_slot_kept[where fcd = from_chars_decimal and s = "c7_state\<lparr>ievt_arr := []\<rparr>"
        and err = OutOfBounds, THEN conjunct2, THEN conjunct2, THEN conjunct2, THEN conjunct1] ob
    by simp
  have v5: "token_value from_chars_int (tokens ''5.9 7'') 0 = Some 5"
    by (simp add: tokens_def is_delim_def token_value_def from_chars_int_def is_digit_def
        digit_val_def in_int_range_def INT_MIN_def INT_MAX_def)
  have wr: "consume_into from_chars_int [0, 0] 1 ''5.9 7'' =
      Inr ([0, 0][nat 1 := 5], snd (consume_next from_chars_int ''5.9 7''))"
    using C7_slot_kept[where fc = from_chars_int and sv = "''5.9 7''" and arr = "[0, 0]"
        and i = 1 and v = 5, THEN conjunct2, THEN conjunct2, THEN conjunct2, THEN conjunct2,
        THEN conjunct2, THEN conjunct1] v5 by simp
  have cn5: "snd (consume_next from_chars_int ''5.9 7'') = '' 7''"
    by (simp add: consume_next_def is_delim_def)
  have ld: "leading_digits ''+2'' = []" by (simp add: leading_digits_def is_digit_def)
  have rj: "token_value from_chars_int [''1'', ''+2''] 1 = None"
    using C7_slot_kept[where toks = "[''1'', ''+2'']" and k = 1, THEN conjunct2, THEN conjunct2,
        THEN conjunct2, THEN conjunct2, THEN conjunct2, THEN conjunct2, THEN conjunct1] ld
    by simp
  have m2: "token_value from_chars_int [''-2x''] 0 = Some (- 2)"
    by (simp add: token_value_def from_chars_int_def is_digit_def digit_val_def in_int_range_def
        INT_MIN_def INT_MAX_def)
  have lv: "leading_value ''-2x'' = - 2"
    using C7_slot_kept[where toks = "[''-2x'']" and k = 0 and w = "- 2", THEN conjunct2,
        THEN conjunct2, THEN conjunct2, THEN conjunct2, THEN conjunct2, THEN conjunct2,
        THEN conjunct2, THEN conjunct1] m2 by simp
  have wr': "consume_into from_chars_int [0, 0] 1 ''5.9 7'' = Inr ([0, 5], '' 7'')"
    using wr cn5 by simp
  have rest: "processEvent from_chars_decimal c7_state = Inr c7_after
   \<and> ievt_arr c7_after ! 1 = 0 \<and> fevt_arr c7_after ! 1 = 0 \<and> fevt_arr c7_after ! 3 = 0
   \<and> iptc_arr c7_after ! 1 = 0 \<and> fptc_arr c7_after ! 6 = 0
   \<and> processWeight from_chars_decimal c7_weight =
       Inr (c7_weight\<lparr>cur_weight := 1, charBuf := [], capture := NO_CAPTURE\<rparr>)
   \<and> consume_into from_chars_int [7, 8] 5 ''x 2'' = Inr ([7, 8], '' 2'')
   \<and> \<not> isl (processEvent from_chars_decimal c7_state)
   \<and> processEvent from_chars_decimal (c7_state\<lparr>ievt_arr := []\<rparr>) = Inl OutOfBounds"
    using a b1 b3 c d w sl z cw cn c7_run ok ob by simp
  show ?thesis using rest wr' rj lv by simp
qed

section \<open>C8: the particle rows of an event\<close>

text \<open>
  C8: a run of the event extractor at event index \<open>e\<close> writes the rows from the particle
  cursor up to the new particle cursor, NUP rows, each with \<open>e\<close> in column 0, and leaves
  i\_ptc and f\_ptc outside these rows as they were.  Over a whole pass 2, started from the allocated
  buffers, column 0 never decreases along the written rows and stays at or below the event
  cursor: the rows of an event index form one contiguous block, and the blocks follow each
  other in document order.
\<close>

theorem C8_particle_blocks:
  "(processEvent fcd s = Inr s' \<and> 0 \<le> cur_particle s \<longrightarrow>
      (\<exists>n. token_value from_chars_int (tokens (charBuf s)) 0 = Some n \<and>
           cur_particle s' = cur_particle s + int (nat n)) \<and>
      (\<forall>r. cur_particle s \<le> int r \<and> int r < cur_particle s' \<longrightarrow>
           7 * r < length (iptc_arr s') \<and> owner s' r = cur_event s) \<and>
      (\<forall>j < length (iptc_arr s). int j < cur_particle s * 7 \<or> cur_particle s' * 7 \<le> int j \<longrightarrow>
           iptc_arr s' ! j = iptc_arr s ! j) \<and>
      (\<forall>j < length (fptc_arr s). int j < cur_particle s * 7 \<or> cur_particle s' * 7 \<le> int j \<longrightarrow>
           fptc_arr s' ! j = fptc_arr s ! j))
   \<and> (run fcd evs (init_state ne nw np) = Inr sf \<longrightarrow>
      0 \<le> cur_particle sf \<and>
      (\<forall>r. int r < cur_particle sf \<longrightarrow>
           7 * r < length (iptc_arr sf) \<and> owner sf r \<le> cur_event sf) \<and>
      (\<forall>r1 r2. r1 \<le> r2 \<and> int r2 < cur_particle sf \<longrightarrow> owner sf r1 \<le> owner sf r2) \<and>
      (\<forall>r1 r2 r3. r1 \<le> r2 \<and> r2 \<le> r3 \<and> int r3 < cur_particle sf \<and> owner sf r1 = owner sf r3 \<longrightarrow>
          owner sf r2 = owner sf r1))"
  (is "(?P \<longrightarrow> ?Q1 \<and> ?Q2 \<and> ?Q3 \<and> ?Q4) \<and> (?R \<longrightarrow> ?S0 \<and> ?S1 \<and> ?S2 \<and> ?S3)")
proof -
  have a: "?P \<longrightarrow> ?Q1 \<and> ?Q2 \<and> ?Q3 \<and> ?Q4"
  proof
    assume h: ?P
    then have pe: "processEvent fcd s = Inr s'" and cp: "0 \<le> cur_particle s" by simp_all
    obtain n where n: "token_value from_chars_int (tokens (charBuf s)) 0 = Some n"
      and cp': "cur_particle s' = cur_particle s + int (nat n)"
      and len: "length (iptc_arr s') = length (iptc_arr s)"
      and new: "\<forall>r. cur_particle s \<le> int r \<and> int r < cur_particle s' \<longrightarrow>
        7 * r < length (iptc_arr s) \<and> owner s' r = cur_event s"
      using processEvent_block[OF pe cp] by (elim exE conjE) (rule that, assumption+)
    obtain m where m: "token_value from_chars_int (tokens (charBuf s)) 0 = Some m"
      and iout: "\<forall>j < length (iptc_arr s).
        (int j < cur_particle s * 7 \<or> (cur_particle s + int (nat m)) * 7 \<le> int j) \<longrightarrow>
        iptc_arr s' ! j = iptc_arr s ! j"
      and fout: "\<forall>j < length (fptc_arr s).
        (int j < cur_particle s * 7 \<or> (cur_particle s + int (nat m)) * 7 \<le> int j) \<longrightarrow>
        fptc_arr s' ! j = fptc_arr s ! j"
      using processEvent_spec[OF pe] by (elim exE conjE) (rule that, assumption+)
    from n m have mn: "m = n" by simp
    have 1: ?Q1 using n cp' by blast
    have 2: ?Q2 using new len by simp
    have 3: ?Q3 using iout unfolding mn cp' by simp
    have 4: ?Q4 using fout unfolding mn cp' by simp
    show "?Q1 \<and> ?Q2 \<and> ?Q3 \<and> ?Q4" by (rule conjI[OF 1 conjI[OF 2 conjI[OF 3 4]]])
  qed
  have b: "?R \<longrightarrow> ?S0 \<and> ?S1 \<and> ?S2 \<and> ?S3"
  proof
    assume r: ?R
    have o: "owners_ordered sf" by (rule run_ordered[OF r init_ordered])
    then have 0: ?S0 and 1: ?S1 and 2: ?S2
      unfolding owners_ordered_def by blast+
    have 3: ?S3
    proof (intro allI impI)
      fix r1 r2 r3
      assume h: "r1 \<le> r2 \<and> r2 \<le> r3 \<and> int r3 < cur_particle sf \<and> owner sf r1 = owner sf r3"
      then have "int r2 < cur_particle sf" by simp
      with h have "owner sf r1 \<le> owner sf r2" using 2 by blast
      moreover have "owner sf r2 \<le> owner sf r3" using 2 h by blast
      ultimately show "owner sf r2 = owner sf r1" using h by simp
    qed
    show "?S0 \<and> ?S1 \<and> ?S2 \<and> ?S3" by (rule conjI[OF 0 conjI[OF 1 conjI[OF 2 3]]])
  qed
  show ?thesis by (rule conjI[OF a b])
qed

theorem C8_particle_blocks_witness:
  "run from_chars_decimal c8_events (init_state 2 1 3) = Inr c8_final
   \<and> map (owner c8_final) [0, 1, 2] = [0, 0, 1]
   \<and> owner c8_final 0 \<le> owner c8_final 1 \<and> owner c8_final 1 \<le> owner c8_final 2
   \<and> owner c8_final 1 = owner c8_final 0
   \<and> processEvent from_chars_decimal c8_start = Inr c8_after \<and> owner c8_after 2 = 1
   \<and> iptc_arr c8_after ! 13 = iptc_arr c8_start ! 13
   \<and> fptc_arr c8_after ! 13 = fptc_arr c8_start ! 13"
proof -
  note t = C8_particle_blocks[where fcd = from_chars_decimal and evs = c8_events and ne = 2
      and nw = 1 and np = 3 and sf = c8_final, THEN conjunct2, rule_format, OF c8_run]
  have cp: "cur_particle c8_final = 3" by (simp add: c8_final_def)
  have o: "map (owner c8_final) [0, 1, 2] = [0, 0, 1]" by (simp add: owner_def c8_final_def)
  have 1: "owner c8_final 0 \<le> owner c8_final 1"
    using t[THEN conjunct2, THEN conjunct2, THEN conjunct1, rule_format, of 0 1] cp by simp
  have 2: "owner c8_final 1 \<le> owner c8_final 2"
    using t[THEN conjunct2, THEN conjunct2, THEN conjunct1, rule_format, of 1 2] cp by simp
  have 3: "owner c8_final 1 = owner c8_final 0"
    using t[THEN conjunct2, THEN conjunct2, THEN conjunct2, rule_format, of 0 1 1] cp o by simp
  have h: "processEvent from_chars_decimal c8_start = Inr c8_after \<and> 0 \<le> cur_particle c8_start"
    using c8_step by (simp add: c8_start_def)
  note u = C8_particle_blocks[where fcd = from_chars_decimal and s = c8_start and s' = c8_after,
      THEN conjunct1, rule_format, OF h]
  have v: "cur_particle c8_start = 2 \<and> cur_particle c8_after = 3 \<and> cur_event c8_start = 1
      \<and> length (iptc_arr c8_start) = 21 \<and> length (fptc_arr c8_start) = 21"
    by (simp add: c8_start_def c8_after_def init_state_def zeros_def)
  have 4: "owner c8_after 2 = 1"
    using u[THEN conjunct2, THEN conjunct1, rule_format, of 2] v by simp
  have 5: "iptc_arr c8_after ! 13 = iptc_arr c8_start ! 13"
    using u[THEN conjunct2, THEN conjunct2, THEN conjunct1, rule_format, of 13] v by simp
  have 6: "fptc_arr c8_after ! 13 = fptc_arr c8_start ! 13"
    using u[THEN conjunct2, THEN conjunct2, THEN conjunct2, rule_format, of 13] v by simp
  show ?thesis
    by (rule conjI[OF c8_run conjI[OF o conjI[OF 1 conjI[OF 2 conjI[OF 3 conjI[OF c8_step
          conjI[OF 4 conjI[OF 5 6]]]]]]]])
qed

section \<open>C9: the two event counts\<close>

text \<open>
  C9: a line without the exact substring \<^verbatim>\<open><event>\<close> leaves \<^verbatim>\<open>n_events\<close> as it is in the
  scan of pass 1, and a tag with attributes such as \<^verbatim>\<open><event npart="0">\<close> is such a line;
  so the count of pass 1 is at most the number of lines with that substring.  The start-tag
  handler of pass 2 enters the header-capturing state for the name \<^verbatim>\<open>event\<close> whatever the
  attributes.  On the document \<open>c9_file\<close> the passes disagree: pass 1 counts one event,
  pass 2 ends with its event cursor at two.
\<close>

theorem C9_event_counts:
  \<open>(\<not> found ''<event>'' line \<longrightarrow>
      scan_lines nl (line # rest) ne nw np lnum =
      scan_lines nl rest ne (count_weight line nw) np (lnum + 1))
   \<and> \<not> found ''<event>'' ''<event npart="0">''
   \<and> (countDimensions (Some content) = Inr (ne', nw', np') \<longrightarrow>
        ne' \<le> int (length (filter (found ''<event>'') (getlines content))))
   \<and> onStart fcd ''event'' attributes s = Inr (s\<lparr>capture := EVENT_HEADER, cur_weight := 0\<rparr>)
   \<and> countDimensions (Some c9_file) = Inr (1, 1, 1)
   \<and> map_sum id (\<lambda>s. (n_events s, cur_event s))
        (run from_chars_decimal c9_events (init_state 1 1 1)) = Inr (1, 2)\<close>
proof -
  have b: "countDimensions (Some content) = Inr (ne', nw', np') \<longrightarrow>
        ne' \<le> int (length (filter (found ''<event>'') (getlines content)))"
    using scan_lines_events_le[of "newline_ended content" "getlines content" 0 0 0 0 ne' nw' np']
    by (simp add: countDimensions_def)
  have c: \<open>\<not> found ''<event>'' ''<event npart="0">''\<close> by simp
  show ?thesis
    using b c by (simp add: scan_lines_skip onStart_event c9_dims c9_run)
qed

theorem C9_event_counts_witness:
  \<open>scan_lines True [''<event npart="0">'', ''0 1 1.0 2.0 3.0 4.0''] 1 1 1 7 =
   scan_lines True [''0 1 1.0 2.0 3.0 4.0''] 1 1 1 8
   \<and> (1::int) \<le> int (length (filter (found ''<event>'') (getlines c9_file)))\<close>
proof -
  have h: \<open>\<not> found ''<event>'' ''<event npart="0">''\<close> by simp
  have w: \<open>count_weight ''<event npart="0">'' 1 = 1\<close> by (simp add: count_weight_def)
  have A: \<open>scan_lines True (''<event npart="0">'' # [''0 1 1.0 2.0 3.0 4.0'']) 1 1 1 7 =
   scan_lines True [''0 1 1.0 2.0 3.0 4.0''] 1 (count_weight ''<event npart="0">'' 1) 1 (7 + 1)\<close>
    using C9_event_counts[where line = \<open>''<event npart="0">''\<close> and nl = True
        and rest = "[''0 1 1.0 2.0 3.0 4.0'']" and ne = 1 and nw = 1 and np = 1 and lnum = 7] h by blast
  have B: "(1::int) \<le> int (length (filter (found ''<event>'') (getlines c9_file)))"
    using C9_event_counts[where content = c9_file and ne' = 1 and nw' = 1 and np' = 1] c9_dims by blast
  from A B w show ?thesis by simp
qed

section \<open>C10: the weight cursor\<close>

text \<open>
  C10: on every tag-end \<^verbatim>\<open>wgt\<close> the weight extractor runs.  When the buffered text does
  not convert, it writes nothing; when it converts and the slot \<^verbatim>\<open>fe[4 + cur_weight]\<close> lies
  inside the f\_evt buffer, it writes the slot; in both cases the per-event weight cursor
  grows by exactly one, the buffer is emptied and the machine returns to the non-capturing
  state.  The only other outcome is a write outside the whole buffer.  No comparison with
  \<^verbatim>\<open>n_weights\<close> takes part: the condition on the slot is about the length of the buffer
  only.  Hence, after a tag-begin \<^verbatim>\<open>event\<close> followed by callbacks that start no other
  event, the cursor equals the number of tag-end \<^verbatim>\<open>wgt\<close> callbacks among them.
\<close>

theorem C10_weight_cursor:
  "(fst (consume_next fcd (charBuf s)) = None \<longrightarrow>
      onEnd fcd ''wgt'' s =
        Inr (s\<lparr>cur_weight := cur_weight s + 1, charBuf := [], capture := NO_CAPTURE\<rparr>))
   \<and> (fst (consume_next fcd (charBuf s)) = Some v \<and>
        0 \<le> weight_slot s \<and> weight_slot s < int (length (fevt_arr s)) \<longrightarrow>
      onEnd fcd ''wgt'' s =
        Inr (s\<lparr>fevt_arr := (fevt_arr s)[nat (weight_slot s) := v],
               cur_weight := cur_weight s + 1, charBuf := [], capture := NO_CAPTURE\<rparr>))
   \<and> (onEnd fcd ''wgt'' s = Inr sw \<longrightarrow>
        cur_weight sw = cur_weight s + 1 \<and> capture sw = NO_CAPTURE \<and> charBuf sw = [])
   \<and> (onEnd fcd ''wgt'' s = Inl e \<longrightarrow> e = OutOfBounds)
   \<and> (run fcd (StartElement ''event'' attributes # evs) s = Inr sr \<and>
        (\<forall>ev \<in> set evs. \<not> is_event_start ev) \<longrightarrow>
        cur_weight sr = int (length (filter is_wgt_end evs)))"
proof -
  have w: "onEnd fcd ''wgt'' s = processWeight fcd s" by (simp add: onEnd_def)
  have a: "fst (consume_next fcd (charBuf s)) = None \<longrightarrow>
      onEnd fcd ''wgt'' s =
        Inr (s\<lparr>cur_weight := cur_weight s + 1, charBuf := [], capture := NO_CAPTURE\<rparr>)"
    by (simp add: w processWeight_cases)
  have b: "fst (consume_next fcd (charBuf s)) = Some v \<and>
        0 \<le> weight_slot s \<and> weight_slot s < int (length (fevt_arr s)) \<longrightarrow>
      onEnd fcd ''wgt'' s =
        Inr (s\<lparr>fevt_arr := (fevt_arr s)[nat (weight_slot s) := v],
               cur_weight := cur_weight s + 1, charBuf := [], capture := NO_CAPTURE\<rparr>)"
    by (simp add: w processWeight_cases)
  have c: "onEnd fcd ''wgt'' s = Inr sw \<longrightarrow>
        cur_weight sw = cur_weight s + 1 \<and> capture sw = NO_CAPTURE \<and> charBuf sw = []"
    using processWeight_frame[of fcd s sw] by (auto simp: w)
  have d: "onEnd fcd ''wgt'' s = Inl e \<longrightarrow> e = OutOfBounds"
    by (auto simp: w processWeight_cases split: option.splits if_splits)
  have e: "run fcd (StartElement ''event'' attributes # evs) s = Inr sr \<and>
        (\<forall>ev \<in> set evs. \<not> is_event_start ev) \<longrightarrow>
        cur_weight sr = int (length (filter is_wgt_end evs))"
  proof
    assume h: "run fcd (StartElement ''event'' attributes # evs) s = Inr sr \<and>
        (\<forall>ev \<in> set evs. \<not> is_event_start ev)"
    then have "run fcd evs (s\<lparr>capture := EVENT_HEADER, cur_weight := 0\<rparr>) = Inr sr"
      by (simp add: onStart_event)
    from run_cur_weight[OF this] h show "cur_weight sr = int (length (filter is_wgt_end evs))"
      by simp
  qed
  from a b c d e show ?thesis by blast
qed

theorem C10_weight_cursor_witness:
  "onEnd from_chars_decimal ''wgt''
     ((init_state 2 1 1)\<lparr>cur_weight := 2, capture := WGT_TAG, charBuf := ''n/a''\<rparr>) =
   Inr ((init_state 2 1 1)\<lparr>cur_weight := 3, capture := NO_CAPTURE, charBuf := []\<rparr>)
   \<and> onEnd from_chars_decimal ''wgt''
     ((init_state 2 1 1)\<lparr>cur_weight := 1, capture := WGT_TAG, charBuf := ''0.25''\<rparr>) =
   Inr ((init_state 2 1 1)\<lparr>fevt_arr := [0, 0, 0, 0, 0, 1/4, 0, 0, 0, 0], cur_weight := 2,
          capture := NO_CAPTURE, charBuf := []\<rparr>)
   \<and> map_sum id cur_weight
       (run from_chars_decimal (StartElement ''event'' [] # c10_events) (init_state 2 1 1)) = Inr 3
   \<and> onEnd from_chars_decimal ''wgt''
     ((init_state 1 1 1)\<lparr>cur_weight := 1, capture := WGT_TAG, charBuf := ''0.25''\<rparr>) =
     Inl OutOfBounds"
proof -
  let ?sN = "(init_state 2 1 1 :: real ParseState)\<lparr>cur_weight := 2, capture := WGT_TAG, charBuf := ''n/a''\<rparr>"
  let ?sP = "(init_state 2 1 1 :: real ParseState)\<lparr>cur_weight := 1, capture := WGT_TAG, charBuf := ''0.25''\<rparr>"
  let ?s2 = "\<lparr>fevt_arr = [1, 2, 3, 4, 1/2, 1/4, 0, 0, 0, 0], ievt_arr = [0, 1, 0, 0],
          fptc_arr = [0, 0, 0, 0, 0, 0, 0], iptc_arr = [0, 0, 0, 0, 0, 0, 0],
          n_weights = 1, n_events = 2, n_particles = 1, cur_event = 0, cur_weight = 3,
          cur_particle = 0, capture = NO_CAPTURE, charBuf = []\<rparr> :: real ParseState"
  have n: "fst (consume_next from_chars_decimal (charBuf ?sN)) = None"
    by (simp add: consume_next_def is_delim_def from_chars_decimal_def is_digit_def)
  have p: "fst (consume_next from_chars_decimal (charBuf ?sP)) = Some (1/4) \<and>
        0 \<le> weight_slot ?sP \<and> weight_slot ?sP < int (length (fevt_arr ?sP))"
    by (simp add: consume_next_def is_delim_def from_chars_decimal_def is_digit_def digit_val_def
        weight_slot_def init_state_def zeros_def)
  have r: "run from_chars_decimal (StartElement ''event'' [] # c10_events) (init_state 2 1 1) = Inr ?s2
     \<and> (\<forall>ev \<in> set c10_events. \<not> is_event_start ev)"
    using c10_run by (simp add: c10_events_def is_event_start_def del: run.simps)
  have f: "int (length (filter is_wgt_end c10_events)) = 3"
    by (simp add: c10_events_def is_wgt_end_def)
  have A: "onEnd from_chars_decimal ''wgt'' ?sN =
        Inr (?sN\<lparr>cur_weight := cur_weight ?sN + 1, charBuf := [], capture := NO_CAPTURE\<rparr>)"
    using C10_weight_cursor[where fcd = from_chars_decimal and s = ?sN] n by blast
  have B: "onEnd from_chars_decimal ''wgt'' ?sP =
        Inr (?sP\<lparr>fevt_arr := (fevt_arr ?sP)[nat (weight_slot ?sP) := 1/4],
               cur_weight := cur_weight ?sP + 1, charBuf := [], capture := NO_CAPTURE\<rparr>)"
    using C10_weight_cursor[where fcd = from_chars_decimal and s = ?sP and v = "1/4"] p by blast
  have C: "cur_weight ?s2 = int (length (filter is_wgt_end c10_events))"
    using C10_weight_cursor[where fcd = from_chars_decimal and s = "init_state 2 1 1" and attributes = "[]"
        and evs = c10_events and sr = ?s2] r by blast
  let ?sO = "(init_state 1 1 1 :: real ParseState)\<lparr>cur_weight := 1, capture := WGT_TAG, charBuf := ''0.25''\<rparr>"
  have D: "onEnd from_chars_decimal ''wgt'' ?sO = Inl OutOfBounds"
    by (simp add: eval_defs)
  have D': "OutOfBounds = OutOfBounds"
    using C10_weight_cursor[where fcd = from_chars_decimal and s = ?sO and e = OutOfBounds] D
    by blast
  have E: "cur_weight (?sN\<lparr>cur_weight := cur_weight ?sN + 1, charBuf := [], capture := NO_CAPTURE\<rparr>)
      = cur_weight ?sN + 1"
    using C10_weight_cursor[where fcd = from_chars_decimal and s = ?sN
        and sw = "?sN\<lparr>cur_weight := cur_weight ?sN + 1, charBuf := [], capture := NO_CAPTURE\<rparr>"] A
    by blast
  show ?thesis
    using A B C D r by (simp add: init_state_def zeros_def weight_slot_def numeral_eq_Suc)
qed

end
